theory Spec2Isabelle
  imports Main
begin

section \<open>Data model (\<^verbatim>\<open>./database\<close>: Chat and Message)\<close>

text \<open>
  Store keys are natural numbers. A record that has not been handed to the store yet has
  no \<^verbatim>\<open>id\<close> (\<^verbatim>\<open>id?: number\<close>); the model writes that as key \<open>0\<close>, which is falsy in
  the source as \<^verbatim>\<open>undefined\<close> is, and which the store never assigns. Timestamps
  (\<^verbatim>\<open>Date\<close>) are milliseconds as integers. The opaque \<^verbatim>\<open>meta\<close> payload is an optional string.
\<close>

datatype role = System | User | Assistant

record chat =
  chat_id :: nat
  chat_name :: string
  chat_model :: string
  chat_createdAt :: int

record message =
  msg_id :: nat
  msg_chatId :: nat
  msg_role :: role
  msg_content :: string
  msg_meta :: "string option"
  msg_createdAt :: int

text \<open>
  \<^verbatim>\<open>interface ChatExport extends Chat { messages: Message[] }\<close>. A bundle read from a file
  may lack \<^verbatim>\<open>createdAt\<close> (\<^verbatim>\<open>importChats\<close> tests it for falsiness), hence the option.
\<close>

record chatExport =
  ce_id :: nat
  ce_name :: string
  ce_model :: string
  ce_createdAt :: "int option"
  ce_messages :: "message list"

text \<open>One element of the response stream of \<^verbatim>\<open>ollama.chat\<close>; the engine reads the text only.\<close>

record part =
  part_content :: string
  part_done :: bool

text \<open>
  How the response stream ends: the iterator finishes, the next read rejects with an
  \<^verbatim>\<open>AbortError\<close> (after \<^verbatim>\<open>abort()\<close>), or it rejects with any other error.
\<close>

datatype stream_end = StreamDone | AbortError | OtherError

type_synonym stream = "part list \<times> stream_end"

text \<open>How an exchange returns; none of them throws to the caller.\<close>

datatype outcome = NoActiveChat | Completed | Aborted | Failed

datatype js_error = TypeError

section \<open>Engine state\<close>

text \<open>
  The module-level refs of \<^verbatim>\<open>chat.ts\<close>, the two tables of the record store with their key
  generators, the configuration refs the engine reads (\<^verbatim>\<open>currentModel\<close>,
  \<^verbatim>\<open>historyMessageLength\<close>), the clock read by \<^verbatim>\<open>new Date()\<close>, and the requests received by
  the model backend (model and message list of every \<^verbatim>\<open>ollama.chat\<close> call).
  \<open>activeShared\<close> records object identity: it holds when \<^verbatim>\<open>activeChat.value\<close> is the very object
  stored in \<^verbatim>\<open>chats.value\<close> (after \<^verbatim>\<open>startNewChat\<close>), so that a write through one is seen
  through the other.
\<close>

record state =
  db_chats :: "chat list"
  db_messages :: "message list"
  db_chats_key :: nat
  db_messages_key :: nat
  chats :: "chat list"
  activeChat :: "chat option"
  activeShared :: bool
  messages :: "message list"
  systemPrompt :: "message option"
  ongoingAiMessages :: "nat \<rightharpoonup> message"
  currentModel :: string
  historyMessageLength :: "int option"
  now :: int
  ollama_requests :: "(string \<times> message list) list"

section \<open>Record store (\<^verbatim>\<open>dbLayer\<close>)\<close>

text \<open>
  Modelled from the spec: the record store behind \<^verbatim>\<open>db.chats\<close> and \<^verbatim>\<open>db.messages\<close>
  (\<^verbatim>\<open>./database\<close>) is not among the sources. Following section 6 of the specification, each
  table supports add (the store assigns the next key of a generator that is never
  reset), get, list-all, update, delete, query by \<^verbatim>\<open>chatId\<close> and clear. A table is the list
  of its records in key order; every store call succeeds.
\<close>

definition dbLayer_getAllChats :: "state \<Rightarrow> chat list" where
  "dbLayer_getAllChats s = db_chats s"

definition dbLayer_getChat :: "nat \<Rightarrow> state \<Rightarrow> chat option" where
  "dbLayer_getChat chatId s = find (\<lambda>c. chat_id c = chatId) (db_chats s)"

definition dbLayer_getMessages :: "nat \<Rightarrow> state \<Rightarrow> message list" where
  "dbLayer_getMessages chatId s = filter (\<lambda>m. msg_chatId m = chatId) (db_messages s)"

definition dbLayer_addChat :: "chat \<Rightarrow> state \<Rightarrow> nat \<times> state" where
  "dbLayer_addChat c s =
     (let k = db_chats_key s
      in (k, s\<lparr>db_chats := db_chats s @ [c\<lparr>chat_id := k\<rparr>], db_chats_key := Suc k\<rparr>))"

definition dbLayer_updateChat :: "nat \<Rightarrow> (chat \<Rightarrow> chat) \<Rightarrow> state \<Rightarrow> state" where
  "dbLayer_updateChat chatId updates s =
     s\<lparr>db_chats := map (\<lambda>c. if chat_id c = chatId then updates c else c) (db_chats s)\<rparr>"

definition dbLayer_addMessage :: "message \<Rightarrow> state \<Rightarrow> nat \<times> state" where
  "dbLayer_addMessage m s =
     (let k = db_messages_key s
      in (k, s\<lparr>db_messages := db_messages s @ [m\<lparr>msg_id := k\<rparr>], db_messages_key := Suc k\<rparr>))"

definition dbLayer_updateMessage :: "nat \<Rightarrow> (message \<Rightarrow> message) \<Rightarrow> state \<Rightarrow> state" where
  "dbLayer_updateMessage messageId updates s =
     s\<lparr>db_messages := map (\<lambda>m. if msg_id m = messageId then updates m else m) (db_messages s)\<rparr>"

definition dbLayer_deleteChat :: "nat \<Rightarrow> state \<Rightarrow> state" where
  "dbLayer_deleteChat chatId s = s\<lparr>db_chats := filter (\<lambda>c. chat_id c \<noteq> chatId) (db_chats s)\<rparr>"

definition dbLayer_deleteMessagesOfChat :: "nat \<Rightarrow> state \<Rightarrow> state" where
  "dbLayer_deleteMessagesOfChat chatId s =
     s\<lparr>db_messages := filter (\<lambda>m. msg_chatId m \<noteq> chatId) (db_messages s)\<rparr>"

definition dbLayer_deleteMessage :: "nat \<Rightarrow> state \<Rightarrow> state" where
  "dbLayer_deleteMessage messageId s =
     s\<lparr>db_messages := filter (\<lambda>m. msg_id m \<noteq> messageId) (db_messages s)\<rparr>"

definition dbLayer_clearChats :: "state \<Rightarrow> state" where
  "dbLayer_clearChats s = s\<lparr>db_chats := []\<rparr>"

definition dbLayer_clearMessages :: "state \<Rightarrow> state" where
  "dbLayer_clearMessages s = s\<lparr>db_messages := []\<rparr>"

section \<open>Engine operations (\<^verbatim>\<open>useChats\<close>)\<close>

text \<open>
  Each operation runs to completion before the next one starts: awaited calls are
  sequential composition. \<^verbatim>\<open>[...chats.value].sort((a, b) => b.createdAt - a.createdAt)\<close> is a
  stable sort by descending creation time.
\<close>

definition sortedChats :: "state \<Rightarrow> chat list" where
  "sortedChats s = sort_key (\<lambda>c. - chat_createdAt c) (chats s)"

definition switchModel :: "string \<Rightarrow> state \<Rightarrow> state" where
  "switchModel model s =
     (let s1 = s\<lparr>currentModel := model\<rparr>
      in case activeChat s1 of
           None \<Rightarrow> s1
         | Some a \<Rightarrow>
             (let s2 = dbLayer_updateChat (chat_id a) (\<lambda>c. c\<lparr>chat_model := model\<rparr>) s1
              in s2\<lparr>activeChat := Some (a\<lparr>chat_model := model\<rparr>),
                    chats := (if activeShared s2
                              then map (\<lambda>c. if chat_id c = chat_id a then c\<lparr>chat_model := model\<rparr> else c)
                                     (chats s2)
                              else chats s2)\<rparr>))"

definition switchChat :: "nat \<Rightarrow> state \<Rightarrow> state" where
  "switchChat chatId s =
     (case dbLayer_getChat chatId s of
        None \<Rightarrow> s
      | Some c \<Rightarrow>
          switchModel (chat_model c)
            (s\<lparr>activeChat := Some c, activeShared := False,
               messages := dbLayer_getMessages chatId s\<rparr>))"

text \<open>\<^verbatim>\<open>if (!content) return\<close>: \<^verbatim>\<open>null\<close> and the empty string are both falsy.\<close>

definition addSystemMessage :: "string option \<Rightarrow> string option \<Rightarrow> state \<Rightarrow> state" where
  "addSystemMessage content meta s =
     (case activeChat s of
        None \<Rightarrow> s
      | Some a \<Rightarrow>
          (case content of
             None \<Rightarrow> s
           | Some txt \<Rightarrow>
               if txt = [] then s
               else
                 (let systemPromptMessage =
                        \<lparr>msg_id = 0, msg_chatId = chat_id a, msg_role = System, msg_content = txt,
                         msg_meta = meta, msg_createdAt = now s\<rparr>;
                      (k, s1) = dbLayer_addMessage systemPromptMessage s;
                      m = systemPromptMessage\<lparr>msg_id := k\<rparr>
                  in s1\<lparr>messages := messages s1 @ [m], systemPrompt := Some m\<rparr>)))"

text \<open>
  \<open>sysmsg\<close> is what \<^verbatim>\<open>useConfig().getCurrentSystemMessage()\<close> returns at the time of the call
  (\<^verbatim>\<open>./appConfig\<close> is not among the sources).
\<close>

definition startNewChat :: "string \<Rightarrow> string option \<Rightarrow> state \<Rightarrow> state" where
  "startNewChat name sysmsg s =
     (let newChat = \<lparr>chat_id = 0, chat_name = name, chat_model = currentModel s,
                     chat_createdAt = now s\<rparr>;
          (k, s1) = dbLayer_addChat newChat s;
          c = newChat\<lparr>chat_id := k\<rparr>;
          s2 = s1\<lparr>chats := chats s1 @ [c], activeChat := Some c, activeShared := True,
                  messages := []\<rparr>
      in addSystemMessage sysmsg None s2)"

text \<open>
  \<^verbatim>\<open>sortedChats.value[0]\<close> exists whenever \<^verbatim>\<open>chats.value\<close> is not empty; were it missing, the
  \<^verbatim>\<open>TypeError\<close> would be caught and logged with the list already loaded.
\<close>

definition initialize :: "string option \<Rightarrow> state \<Rightarrow> state" where
  "initialize sysmsg s =
     (let s1 = s\<lparr>chats := dbLayer_getAllChats s, activeShared := False\<rparr>
      in if length (chats s1) > 0
         then (case sortedChats s1 of
                 c # _ \<Rightarrow> switchChat (chat_id c) s1
               | [] \<Rightarrow> s1)
         else startNewChat ''New chat'' sysmsg s1)"

definition renameChat :: "string \<Rightarrow> state \<Rightarrow> state" where
  "renameChat newName s =
     (case activeChat s of
        None \<Rightarrow> s
      | Some a \<Rightarrow>
          (let s1 = s\<lparr>activeChat := Some (a\<lparr>chat_name := newName\<rparr>)\<rparr>;
               s2 = dbLayer_updateChat (chat_id a) (\<lambda>c. c\<lparr>chat_name := newName\<rparr>) s1
           in s2\<lparr>chats := dbLayer_getAllChats s2, activeShared := False\<rparr>))"

definition wipeDatabase :: "string option \<Rightarrow> state \<Rightarrow> state" where
  "wipeDatabase sysmsg s =
     (let s1 = dbLayer_clearMessages (dbLayer_clearChats s);
          s2 = s1\<lparr>chats := [], activeChat := None, activeShared := False, messages := [],
                  ongoingAiMessages := Map.empty\<rparr>
      in startNewChat ''New chat'' sysmsg s2)"

text \<open>\<^verbatim>\<open>activeChat.value?.id === chatId\<close> is false when there is no active chat.\<close>

definition deleteChat :: "nat \<Rightarrow> string option \<Rightarrow> state \<Rightarrow> state" where
  "deleteChat chatId sysmsg s =
     (let s1 = dbLayer_deleteMessagesOfChat chatId (dbLayer_deleteChat chatId s);
          s2 = s1\<lparr>chats := filter (\<lambda>c. chat_id c \<noteq> chatId) (chats s1)\<rparr>
      in if (case activeChat s2 of None \<Rightarrow> False | Some a \<Rightarrow> chat_id a = chatId)
         then (case sortedChats s2 of
                 [] \<Rightarrow> startNewChat ''New chat'' sysmsg s2
               | c # _ \<Rightarrow> switchChat (chat_id c) s2)
         else s2)"

definition abort :: "state \<Rightarrow> state" where
  "abort s = s\<lparr>ongoingAiMessages := Map.empty\<rparr>"

subsection \<open>Streaming exchange\<close>

text \<open>
  \<^verbatim>\<open>Array.prototype.slice(start)\<close>: a negative start counts from the end and is clamped at
  the first element; \<^verbatim>\<open>-0\<close> is \<^verbatim>\<open>0\<close>, the whole array.
\<close>

definition js_slice :: "int \<Rightarrow> 'a list \<Rightarrow> 'a list" where
  "js_slice start xs =
     (if start < 0 then drop (nat (max (int (length xs) + start) 0)) xs
      else drop (nat start) xs)"

text \<open>
  \<^verbatim>\<open>messages.value.slice(-(historyMessageLength.value ?? 0))\<close>, then
  \<^verbatim>\<open>chatHistory.unshift(systemPrompt.value)\<close> when the ref is set.
\<close>

definition chatHistory :: "state \<Rightarrow> message list" where
  "chatHistory s =
     (let h = js_slice (- (case historyMessageLength s of None \<Rightarrow> 0 | Some n \<Rightarrow> n)) (messages s)
      in case systemPrompt s of None \<Rightarrow> h | Some p \<Rightarrow> p # h)"

text \<open>
  The block that \<^verbatim>\<open>addUserMessage\<close> and \<^verbatim>\<open>regenerateResponse\<close> both contain, in three
  pieces. \<open>startAiMessage\<close>: create and persist the empty assistant message, register it
  as in flight, append it, build the history and call \<^verbatim>\<open>ollama.chat\<close>.
\<close>

definition startAiMessage :: "nat \<Rightarrow> state \<Rightarrow> state" where
  "startAiMessage currentChatId s =
     (let aiMessage = \<lparr>msg_id = 0, msg_chatId = currentChatId, msg_role = Assistant,
                       msg_content = [], msg_meta = None, msg_createdAt = now s\<rparr>;
          (k, s1) = dbLayer_addMessage aiMessage s;
          ai = aiMessage\<lparr>msg_id := k\<rparr>;
          s2 = s1\<lparr>ongoingAiMessages := (ongoingAiMessages s1)(currentChatId \<mapsto> ai),
                  messages := messages s1 @ [ai]\<rparr>
      in s2\<lparr>ollama_requests := ollama_requests s2 @ [(currentModel s2, chatHistory s2)]\<rparr>)"

text \<open>
  The body of \<^verbatim>\<open>for await (const part of response)\<close>. The tracked message is the object
  that was appended to \<^verbatim>\<open>messages.value\<close>, so appending to its content is seen there too
  (objects are identified by their store key); the list is then replaced by the stored
  messages when the chat is still the active one.
\<close>

definition onPart :: "nat \<Rightarrow> part \<Rightarrow> state \<Rightarrow> state" where
  "onPart currentChatId p s =
     (case ongoingAiMessages s currentChatId of
        None \<Rightarrow> s
      | Some aiMessage \<Rightarrow>
          (let ai = aiMessage\<lparr>msg_content := msg_content aiMessage @ part_content p\<rparr>;
               s1 = s\<lparr>ongoingAiMessages := (ongoingAiMessages s)(currentChatId \<mapsto> ai),
                       messages := map (\<lambda>m. if msg_id m = msg_id ai then ai else m) (messages s)\<rparr>;
               s2 = dbLayer_updateMessage (msg_id ai) (\<lambda>m. m\<lparr>msg_content := msg_content ai\<rparr>) s1
           in if (case activeChat s2 of None \<Rightarrow> False | Some a \<Rightarrow> chat_id a = currentChatId)
              then s2\<lparr>messages := dbLayer_getMessages currentChatId s2\<rparr>
              else s2))"

fun consume :: "nat \<Rightarrow> part list \<Rightarrow> state \<Rightarrow> state" where
  "consume currentChatId [] s = s"
| "consume currentChatId (p # ps) s = consume currentChatId ps (onPart currentChatId p s)"

text \<open>
  After the loop, or in the \<^verbatim>\<open>catch\<close> clause. An \<^verbatim>\<open>AbortError\<close> is raised by the backend
  client once \<^verbatim>\<open>abort()\<close> has run, which happens while the loop waits for the next part.
\<close>

definition onStreamEnd :: "nat \<Rightarrow> stream_end \<Rightarrow> state \<Rightarrow> outcome \<times> state" where
  "onStreamEnd currentChatId e s =
     (case e of
        StreamDone \<Rightarrow>
          (Completed, s\<lparr>ongoingAiMessages := (ongoingAiMessages s)(currentChatId := None)\<rparr>)
      | AbortError \<Rightarrow>
          (let s1 = abort s
           in (Aborted, s1\<lparr>ongoingAiMessages := (ongoingAiMessages s1)(currentChatId := None)\<rparr>))
      | OtherError \<Rightarrow> (Failed, s))"

definition streamResponse :: "nat \<Rightarrow> stream \<Rightarrow> state \<Rightarrow> outcome \<times> state" where
  "streamResponse currentChatId response s =
     onStreamEnd currentChatId (snd response)
       (consume currentChatId (fst response) (startAiMessage currentChatId s))"

definition addUserMessage :: "string \<Rightarrow> stream \<Rightarrow> state \<Rightarrow> outcome \<times> state" where
  "addUserMessage content response s =
     (case activeChat s of
        None \<Rightarrow> (NoActiveChat, s)
      | Some a \<Rightarrow>
          (let currentChatId = chat_id a;
               message = \<lparr>msg_id = 0, msg_chatId = chat_id a, msg_role = User,
                          msg_content = content, msg_meta = None, msg_createdAt = now s\<rparr>;
               (k, s1) = dbLayer_addMessage message s;
               s2 = s1\<lparr>messages := messages s1 @ [message\<lparr>msg_id := k\<rparr>]\<rparr>
           in streamResponse currentChatId response s2))"

text \<open>
  \<^verbatim>\<open>messages.value[messages.value.length - 1]\<close> is \<^verbatim>\<open>undefined\<close> on an empty list; the
  deletion is guarded, the new assistant message and the stream are not.
\<close>

definition regenerateResponse :: "stream \<Rightarrow> state \<Rightarrow> outcome \<times> state" where
  "regenerateResponse response s =
     (case activeChat s of
        None \<Rightarrow> (NoActiveChat, s)
      | Some a \<Rightarrow>
          (let currentChatId = chat_id a;
               s1 = (if messages s \<noteq> [] \<and> msg_role (last (messages s)) = Assistant
                     then (let message = last (messages s);
                               s' = (if msg_id message \<noteq> 0
                                     then dbLayer_deleteMessage (msg_id message) s else s)
                           in s'\<lparr>messages := butlast (messages s')\<rparr>)
                     else s)
           in streamResponse currentChatId response s1))"

subsection \<open>Export and import\<close>

text \<open>\<^verbatim>\<open>if (!chat?.id) return\<close> skips a chat without a key.\<close>

definition exportChats :: "state \<Rightarrow> chatExport list" where
  "exportChats s =
     map (\<lambda>c. \<lparr>ce_id = chat_id c, ce_name = chat_name c, ce_model = chat_model c,
                ce_createdAt = Some (chat_createdAt c),
                ce_messages = dbLayer_getMessages (chat_id c) s\<rparr>)
       (filter (\<lambda>c. chat_id c \<noteq> 0) (dbLayer_getAllChats s))"

text \<open>
  The inner \<^verbatim>\<open>forEach\<close> of \<^verbatim>\<open>importChats\<close>: one \<^verbatim>\<open>addMessage\<close> per message of the bundle,
  issued in list order.
\<close>

fun importMessages :: "nat \<Rightarrow> message list \<Rightarrow> state \<Rightarrow> state" where
  "importMessages chatId [] s = s"
| "importMessages chatId (messageData # rest) s =
     importMessages chatId rest
       (snd (dbLayer_addMessage
          \<lparr>msg_id = 0, msg_chatId = chatId, msg_role = msg_role messageData,
           msg_content = msg_content messageData, msg_meta = None,
           msg_createdAt = msg_createdAt messageData\<rparr> s))"

text \<open>
  The callback of the outer \<^verbatim>\<open>forEach\<close>. \<^verbatim>\<open>chatData.messages[0].createdAt\<close> is evaluated only
  when \<^verbatim>\<open>chatData.createdAt\<close> is falsy; on an empty list \<^verbatim>\<open>messages[0]\<close> is \<^verbatim>\<open>undefined\<close>
  and reading its property throws a \<^verbatim>\<open>TypeError\<close>, before anything is stored.
\<close>

definition importChat :: "chatExport \<Rightarrow> state \<Rightarrow> js_error + state" where
  "importChat chatData s =
     (case (case ce_createdAt chatData of
              Some t \<Rightarrow> Inr t
            | None \<Rightarrow> (case ce_messages chatData of
                         [] \<Rightarrow> Inl TypeError
                       | m # _ \<Rightarrow> Inr (msg_createdAt m))) of
        Inl e \<Rightarrow> Inl e
      | Inr t \<Rightarrow>
          (let c0 = \<lparr>chat_id = 0, chat_name = ce_name chatData, chat_model = ce_model chatData,
                     chat_createdAt = t\<rparr>;
               (k, s1) = dbLayer_addChat c0 s;
               s2 = s1\<lparr>chats := chats s1 @ [c0\<lparr>chat_id := k\<rparr>]\<rparr>
           in Inr (importMessages k (ce_messages chatData) s2)))"

text \<open>
  \<^verbatim>\<open>jsonData.forEach(async chatData => ...)\<close>: the callbacks are asynchronous functions whose
  promises nobody awaits, so a callback that throws is a rejected promise that no
  handler sees and the remaining bundles are still imported. The result is the list of
  those rejections and the state once every callback has finished, the callbacks taken
  in list order.
\<close>

fun importChats :: "chatExport list \<Rightarrow> state \<Rightarrow> js_error list \<times> state" where
  "importChats [] s = ([], s)"
| "importChats (chatData # rest) s =
     (case importChat chatData s of
        Inl e \<Rightarrow> (let (es, s') = importChats rest s in (e # es, s'))
      | Inr s1 \<Rightarrow> importChats rest s1)"

section \<open>Sessions\<close>

text \<open>
  The state before the first call of a first run: empty store, key generators at 1,
  module-level refs at their initial values. The configuration and the clock are
  arbitrary.
\<close>

definition firstRun :: "string \<Rightarrow> int option \<Rightarrow> int \<Rightarrow> state" where
  "firstRun model h t =
     \<lparr>db_chats = [], db_messages = [], db_chats_key = 1, db_messages_key = 1, chats = [],
      activeChat = None, activeShared = False, messages = [], systemPrompt = None,
      ongoingAiMessages = Map.empty, currentModel = model, historyMessageLength = h, now = t,
      ollama_requests = []\<rparr>"

text \<open>
  Reloading the page keeps the store and the configuration and resets the
  module-level refs.
\<close>

definition newSession :: "state \<Rightarrow> state" where
  "newSession s = s\<lparr>chats := [], activeChat := None, activeShared := False, messages := [],
                    systemPrompt := None, ongoingAiMessages := Map.empty\<rparr>"

text \<open>
  What can happen in a session: a call of an engine operation (with what the
  configuration or the backend hands to it), a change of the history length or of the
  clock by the environment, and a reload, after which \<^verbatim>\<open>App.vue\<close> calls \<^verbatim>\<open>initialize\<close>.
\<close>

datatype action =
    Initialize "string option"
  | SwitchChat nat
  | SwitchModel string
  | RenameChat string
  | StartNewChat string "string option"
  | AddSystemMessage "string option" "string option"
  | AddUserMessage string stream
  | RegenerateResponse stream
  | WipeDatabase "string option"
  | DeleteChat nat "string option"
  | Abort
  | ImportChats "chatExport list"
  | SetHistoryLength "int option"
  | SetClock int
  | Reload "string option"

fun step :: "action \<Rightarrow> state \<Rightarrow> state" where
  "step (Initialize sysmsg) s = initialize sysmsg s"
| "step (SwitchChat chatId) s = switchChat chatId s"
| "step (SwitchModel model) s = switchModel model s"
| "step (RenameChat newName) s = renameChat newName s"
| "step (StartNewChat name sysmsg) s = startNewChat name sysmsg s"
| "step (AddSystemMessage content meta) s = addSystemMessage content meta s"
| "step (AddUserMessage content response) s = snd (addUserMessage content response s)"
| "step (RegenerateResponse response) s = snd (regenerateResponse response s)"
| "step (WipeDatabase sysmsg) s = wipeDatabase sysmsg s"
| "step (DeleteChat chatId sysmsg) s = deleteChat chatId sysmsg s"
| "step Abort s = abort s"
| "step (ImportChats jsonData) s = snd (importChats jsonData s)"
| "step (SetHistoryLength h) s = s\<lparr>historyMessageLength := h\<rparr>"
| "step (SetClock t) s = s\<lparr>now := t\<rparr>"
| "step (Reload sysmsg) s = initialize sysmsg (newSession s)"

fun run :: "action list \<Rightarrow> state \<Rightarrow> state" where
  "run [] s = s"
| "run (a # as) s = run as (step a s)"

text \<open>
  A session starts with \<^verbatim>\<open>initialize\<close>, called by \<^verbatim>\<open>App.vue\<close> when mounted.
\<close>

inductive reachable :: "state \<Rightarrow> bool" where
  reach_first: "reachable (initialize sysmsg (firstRun model h t))"
| reach_step: "reachable s \<Longrightarrow> reachable (step a s)"

section \<open>Invariant\<close>

text \<open>
  The fields of a chat that never change once it is stored.
\<close>

definition chat_key :: "chat \<Rightarrow> nat \<times> int" where
  "chat_key c = (chat_id c, chat_createdAt c)"

text \<open>
  The store is well formed: keys are positive, below the generator and unique, and
  every message references a stored chat.
\<close>

definition store_ok :: "state \<Rightarrow> bool" where
  "store_ok s \<longleftrightarrow>
     (\<forall>c \<in> set (db_chats s). 0 < chat_id c \<and> chat_id c < db_chats_key s) \<and>
     distinct (map chat_id (db_chats s)) \<and>
     (\<forall>m \<in> set (db_messages s). 0 < msg_id m \<and> msg_id m < db_messages_key s) \<and>
     distinct (map msg_id (db_messages s)) \<and>
     (\<forall>m \<in> set (db_messages s). msg_chatId m \<in> chat_id ` set (db_chats s)) \<and>
     0 < db_chats_key s \<and> 0 < db_messages_key s"

text \<open>
  The in-memory state agrees with the store: the chat list has the stored chats in
  the same order (up to name and model), the active chat is one of them, and the
  in-memory messages belong to the active chat.
\<close>

definition memory_ok :: "state \<Rightarrow> bool" where
  "memory_ok s \<longleftrightarrow>
     map chat_key (chats s) = map chat_key (db_chats s) \<and>
     (\<forall>a. activeChat s = Some a \<longrightarrow> chat_key a \<in> chat_key ` set (chats s)) \<and>
     (\<forall>m \<in> set (messages s). \<exists>a. activeChat s = Some a \<and> msg_chatId m = chat_id a)"

definition inv :: "state \<Rightarrow> bool" where
  "inv s \<longleftrightarrow> store_ok s \<and> memory_ok s"

section \<open>Auxiliary definitions\<close>

text \<open>
  The part of the invariant that holds in the middle of \<^verbatim>\<open>deleteChat\<close> and
  \<^verbatim>\<open>initialize\<close>, when the active chat is not settled yet.
\<close>

definition lists_ok :: "state \<Rightarrow> bool" where
  "lists_ok s \<longleftrightarrow> store_ok s \<and> map chat_key (chats s) = map chat_key (db_chats s)"

text \<open>
  \<^verbatim>\<open>deleteChat\<close> after its three removals, before the active chat is looked at.
\<close>

definition afterDelete :: "nat \<Rightarrow> state \<Rightarrow> state" where
  "afterDelete chatId s =
     s\<lparr>db_chats := filter (\<lambda>c. chat_id c \<noteq> chatId) (db_chats s),
       db_messages := filter (\<lambda>m. msg_chatId m \<noteq> chatId) (db_messages s),
       chats := filter (\<lambda>c. chat_id c \<noteq> chatId) (chats s)\<rparr>"

text \<open>
  The assistant message as created, with its store key.
\<close>

definition aiEmpty :: "nat \<Rightarrow> nat \<Rightarrow> int \<Rightarrow> message" where
  "aiEmpty k chatId t =
     \<lparr>msg_id = k, msg_chatId = chatId, msg_role = Assistant, msg_content = [], msg_meta = None,
      msg_createdAt = t\<rparr>"

text \<open>
  The effect of \<^verbatim>\<open>updateMessage(id, { content })\<close> on the message table.
\<close>

definition setContent :: "nat \<Rightarrow> string \<Rightarrow> message list \<Rightarrow> message list" where
  "setContent k txt ms = map (\<lambda>m. if msg_id m = k then m\<lparr>msg_content := txt\<rparr> else m) ms"

text \<open>
  The user message of \<^verbatim>\<open>addUserMessage\<close>, with its store key.
\<close>

definition userMessage :: "nat \<Rightarrow> nat \<Rightarrow> string \<Rightarrow> int \<Rightarrow> message" where
  "userMessage k chatId txt t =
     \<lparr>msg_id = k, msg_chatId = chatId, msg_role = User, msg_content = txt, msg_meta = None,
      msg_createdAt = t\<rparr>"

text \<open>
  The guarded deletion at the start of \<^verbatim>\<open>regenerateResponse\<close>.
\<close>

definition dropLast :: "state \<Rightarrow> state" where
  "dropLast s =
     (if messages s \<noteq> [] \<and> msg_role (last (messages s)) = Assistant
      then s\<lparr>db_messages := (if msg_id (last (messages s)) \<noteq> 0
                              then filter (\<lambda>m. msg_id m \<noteq> msg_id (last (messages s))) (db_messages s)
                              else db_messages s),
             messages := butlast (messages s)\<rparr>
      else s)"

text \<open>
  The records that the inner loop of \<^verbatim>\<open>importChats\<close> adds for one bundle, the first
  under the given key.
\<close>

fun stored :: "nat \<Rightarrow> nat \<Rightarrow> message list \<Rightarrow> message list" where
  "stored chatId key [] = []"
| "stored chatId key (m # ms) =
     \<lparr>msg_id = key, msg_chatId = chatId, msg_role = msg_role m, msg_content = msg_content m,
      msg_meta = None, msg_createdAt = msg_createdAt m\<rparr> # stored chatId (Suc key) ms"

text \<open>
  The chat that \<^verbatim>\<open>importChats\<close> stores for a bundle that does not fault.
\<close>

definition importedChat :: "nat \<Rightarrow> chatExport \<Rightarrow> chat" where
  "importedChat k b =
     \<lparr>chat_id = k, chat_name = ce_name b, chat_model = ce_model b,
      chat_createdAt = (case ce_createdAt b of Some t \<Rightarrow> t
                        | None \<Rightarrow> msg_createdAt (hd (ce_messages b)))\<rparr>"

text \<open>
  The state of an exchange when the given parts have been consumed and the loop
  waits for the next one.
\<close>

definition midStream :: "nat \<Rightarrow> part list \<Rightarrow> state \<Rightarrow> state" where
  "midStream currentChatId ps s = consume currentChatId ps (startAiMessage currentChatId s)"

definition withText :: "string \<Rightarrow> message \<Rightarrow> message" where
  "withText txt m = m\<lparr>msg_content := txt\<rparr>"

section \<open>Example states\<close>

text \<open>
  \<open>freshChat\<close> is the state after \<^verbatim>\<open>initialize\<close> on a first run without system prompt;
  \<open>twoPrompts\<close> is reached from a first run with two chats that each got a system prompt,
  the first chat active again; \<open>userLast\<close> has an imported chat active whose only message
  is a user message; \<open>briefChat\<close> is a first chat with a system prompt after one exchange,
  with history length 2; in \<open>sMistral\<close> the first of two chats was activated by
  \<^verbatim>\<open>switchChat\<close> and then given another model by \<^verbatim>\<open>switchModel\<close>.
\<close>

definition chatA :: chat where
  "chatA = \<lparr>chat_id = 1, chat_name = ''New chat'', chat_model = ''llama3'', chat_createdAt = 1000\<rparr>"

definition chatB :: chat where
  "chatB = \<lparr>chat_id = 2, chat_name = ''B'', chat_model = ''llama3'', chat_createdAt = 1000\<rparr>"

definition freshChat :: state where
  "freshChat =
     \<lparr>db_chats = [chatA], db_messages = [], db_chats_key = 2, db_messages_key = 1,
      chats = [chatA], activeChat = Some chatA, activeShared = True, messages = [],
      systemPrompt = None, ongoingAiMessages = Map.empty, currentModel = ''llama3'',
      historyMessageLength = Some 10, now = 1000, ollama_requests = []\<rparr>"

definition sysA :: message where
  "sysA = \<lparr>msg_id = 1, msg_chatId = 1, msg_role = System, msg_content = ''Be brief'',
           msg_meta = None, msg_createdAt = 1000\<rparr>"

definition sysB :: message where
  "sysB = \<lparr>msg_id = 2, msg_chatId = 2, msg_role = System, msg_content = ''Be formal'',
           msg_meta = None, msg_createdAt = 1000\<rparr>"

definition twoPrompts :: state where
  "twoPrompts =
     \<lparr>db_chats = [chatA, chatB], db_messages = [sysA, sysB], db_chats_key = 3,
      db_messages_key = 3, chats = [chatA, chatB], activeChat = Some chatA,
      activeShared = False, messages = [sysA], systemPrompt = Some sysB,
      ongoingAiMessages = Map.empty, currentModel = ''llama3'',
      historyMessageLength = Some 10, now = 1000, ollama_requests = []\<rparr>"

definition helloParts :: "part list" where
  "helloParts = [\<lparr>part_content = ''Hel'', part_done = False\<rparr>,
                 \<lparr>part_content = ''lo'', part_done = True\<rparr>]"

definition briefChat :: state where
  "briefChat =
     \<lparr>db_chats = [chatA],
      db_messages = [sysA, userMessage 2 1 ''hi'' 1000, aiEmpty 3 1 1000],
      db_chats_key = 2, db_messages_key = 4, chats = [chatA], activeChat = Some chatA,
      activeShared = True,
      messages = [sysA, userMessage 2 1 ''hi'' 1000, aiEmpty 3 1 1000],
      systemPrompt = Some sysA, ongoingAiMessages = Map.empty, currentModel = ''llama3'',
      historyMessageLength = Some 2, now = 1000,
      ollama_requests = [(''llama3'', [sysA, userMessage 2 1 ''hi'' 1000, aiEmpty 3 1 1000])]\<rparr>"

definition sMistral :: state where
  "sMistral =
     \<lparr>db_chats = [chatA\<lparr>chat_model := ''mistral''\<rparr>, chatB], db_messages = [],
      db_chats_key = 3, db_messages_key = 1, chats = [chatA, chatB],
      activeChat = Some (chatA\<lparr>chat_model := ''mistral''\<rparr>), activeShared = False,
      messages = [], systemPrompt = None, ongoingAiMessages = Map.empty,
      currentModel = ''mistral'', historyMessageLength = Some 10, now = 1000,
      ollama_requests = []\<rparr>"

definition userHi :: message where
  "userHi = \<lparr>msg_id = 1, msg_chatId = 2, msg_role = User, msg_content = ''hi'',
           msg_meta = None, msg_createdAt = 501\<rparr>"

definition chatImported :: chat where
  "chatImported = \<lparr>chat_id = 2, chat_name = ''Saved'', chat_model = ''llama3'', chat_createdAt = 500\<rparr>"

definition userLast :: state where
  "userLast =
     \<lparr>db_chats = [chatA, chatImported], db_messages = [userHi], db_chats_key = 3,
      db_messages_key = 2, chats = [chatA, chatImported], activeChat = Some chatImported,
      activeShared = False, messages = [userHi], systemPrompt = None,
      ongoingAiMessages = Map.empty, currentModel = ''llama3'',
      historyMessageLength = Some 10, now = 1000, ollama_requests = []\<rparr>"

section \<open>The history window as the specification words it\<close>

text \<open>
  ``The last N messages'': none for \<open>N = 0\<close>, all when there are fewer than \<open>N\<close>.
\<close>

definition lastN :: "nat \<Rightarrow> 'a list \<Rightarrow> 'a list" where
  "lastN n xs = drop (length xs - n) xs"

text \<open>
  The system-prompt message of the active chat itself: the first system message stored
  for it.
\<close>

definition ownSystemPrompt :: "state \<Rightarrow> message option" where
  "ownSystemPrompt s =
     (case activeChat s of
        None \<Rightarrow> None
      | Some a \<Rightarrow> find (\<lambda>m. msg_role m = System \<and> msg_chatId m = chat_id a) (db_messages s))"

text \<open>
  The history of the specification: the last N messages of the active chat (N the
  configured length, 0 or unset giving the empty window) with the chat's own
  system-prompt message in front when there is one.
\<close>

definition spec_chatHistory :: "state \<Rightarrow> message list" where
  "spec_chatHistory s =
     (case ownSystemPrompt s of None \<Rightarrow> [] | Some p \<Rightarrow> [p]) @
     lastN (nat (case historyMessageLength s of None \<Rightarrow> 0 | Some n \<Rightarrow> n)) (messages s)"

text \<open>
  \<^verbatim>\<open>addUserMessage\<close> after the user message is stored and appended.
\<close>

definition afterUserMessage :: "chat \<Rightarrow> string \<Rightarrow> state \<Rightarrow> state" where
  "afterUserMessage a content s =
     s\<lparr>db_messages := db_messages s @ [userMessage (db_messages_key s) (chat_id a) content (now s)],
       db_messages_key := Suc (db_messages_key s),
       messages := messages s @ [userMessage (db_messages_key s) (chat_id a) content (now s)]\<rparr>"

text \<open>
  The active chat, if any, is in the chat list, by key.
\<close>

definition activeListed :: "state \<Rightarrow> bool" where
  "activeListed s =
     (case activeChat s of None \<Rightarrow> True | Some a \<Rightarrow> chat_id a \<in> chat_id ` set (chats s))"

text \<open>
  The chat that \<^verbatim>\<open>startNewChat\<close> creates.
\<close>

definition newChat :: "string \<Rightarrow> state \<Rightarrow> chat" where
  "newChat name s =
     \<lparr>chat_id = db_chats_key s, chat_name = name, chat_model = currentModel s,
      chat_createdAt = now s\<rparr>"

text \<open>
  The bundle that \<^verbatim>\<open>exportChats\<close> builds for a chat.
\<close>

definition bundleOf :: "state \<Rightarrow> chat \<Rightarrow> chatExport" where
  "bundleOf s c =
     \<lparr>ce_id = chat_id c, ce_name = chat_name c, ce_model = chat_model c,
      ce_createdAt = Some (chat_createdAt c),
      ce_messages = dbLayer_getMessages (chat_id c) s\<rparr>"

text \<open>
  What an import carries over from a message.
\<close>

definition msg_payload :: "message \<Rightarrow> role \<times> string \<times> int" where
  "msg_payload m = (msg_role m, msg_content m, msg_createdAt m)"

section \<open>The invariant holds in every reachable state\<close>

subsection \<open>Chat operations\<close>

lemma ids_of_keys: "map chat_key xs = map chat_key ys \<Longrightarrow> map chat_id xs = map chat_id ys"
proof -
  assume "map chat_key xs = map chat_key ys"
  then have "map (fst \<circ> chat_key) xs = map (fst \<circ> chat_key) ys"
    by (metis map_map)
  then show ?thesis by (simp add: chat_key_def comp_def)
qed

lemma chat_key_upd [simp]:
  "chat_key (c\<lparr>chat_model := m\<rparr>) = chat_key c"
  "chat_key (c\<lparr>chat_name := n\<rparr>) = chat_key c"
  by (simp_all add: chat_key_def)

lemma chat_key_id: "chat_key a = chat_key b \<Longrightarrow> chat_id a = chat_id b"
  by (simp add: chat_key_def)

lemma map_chat_key_cond [simp]:
  "map chat_key (map (\<lambda>c. if chat_id c = k then c\<lparr>chat_model := m\<rparr> else c) xs) = map chat_key xs"
  "map chat_key (map (\<lambda>c. if chat_id c = k then c\<lparr>chat_name := n\<rparr> else c) xs) = map chat_key xs"
  by (induction xs) simp_all

lemma map_chat_id_cond [simp]:
  "map chat_id (map (\<lambda>c. if chat_id c = k then c\<lparr>chat_model := m\<rparr> else c) xs) = map chat_id xs"
  "map chat_id (map (\<lambda>c. if chat_id c = k then c\<lparr>chat_name := n\<rparr> else c) xs) = map chat_id xs"
  by (induction xs) simp_all

lemma store_ok_chat_ids:
  "map chat_id (db_chats s') = map chat_id (db_chats s) \<Longrightarrow> db_messages s' = db_messages s \<Longrightarrow>
   db_chats_key s' = db_chats_key s \<Longrightarrow> db_messages_key s' = db_messages_key s \<Longrightarrow>
   store_ok s' = store_ok s"
proof -
  assume a: "map chat_id (db_chats s') = map chat_id (db_chats s)"
    and b: "db_messages s' = db_messages s" "db_chats_key s' = db_chats_key s"
       "db_messages_key s' = db_messages_key s"
  from a have "set (map chat_id (db_chats s')) = set (map chat_id (db_chats s))" by simp
  then have img: "chat_id ` set (db_chats s') = chat_id ` set (db_chats s)" by simp
  have "(\<forall>c \<in> set (db_chats s'). 0 < chat_id c \<and> chat_id c < db_chats_key s)
      = (\<forall>k \<in> chat_id ` set (db_chats s'). 0 < k \<and> k < db_chats_key s)" by blast
  also have "\<dots> = (\<forall>c \<in> set (db_chats s). 0 < chat_id c \<and> chat_id c < db_chats_key s)"
    unfolding img by blast
  finally show ?thesis
    using a b img by (simp add: store_ok_def)
qed

lemma memory_ok_keys:
  assumes "map chat_key (chats s') = map chat_key (chats s)"
    and "map chat_key (db_chats s') = map chat_key (db_chats s)"
    and "map_option chat_key (activeChat s') = map_option chat_key (activeChat s)"
    and "messages s' = messages s"
  shows "memory_ok s' = memory_ok s"
proof -
  from assms(1) have "set (map chat_key (chats s')) = set (map chat_key (chats s))" by simp
  then have img: "chat_key ` set (chats s') = chat_key ` set (chats s)" by simp
  have act: "(\<exists>a. activeChat s' = Some a \<and> chat_key a = k) = (\<exists>a. activeChat s = Some a \<and> chat_key a = k)" for k
    using assms(3) by (cases "activeChat s'"; cases "activeChat s"; auto)
  have a1: "(\<forall>a. activeChat s' = Some a \<longrightarrow> chat_key a \<in> chat_key ` set (chats s))
          = (\<forall>k. (\<exists>a. activeChat s' = Some a \<and> chat_key a = k) \<longrightarrow> k \<in> chat_key ` set (chats s))"
    by blast
  have a2: "(\<forall>a. activeChat s = Some a \<longrightarrow> chat_key a \<in> chat_key ` set (chats s))
          = (\<forall>k. (\<exists>a. activeChat s = Some a \<and> chat_key a = k) \<longrightarrow> k \<in> chat_key ` set (chats s))"
    by blast
  have b1: "(\<exists>a. activeChat s' = Some a \<and> c = chat_id a)
          = (\<exists>k. (\<exists>a. activeChat s' = Some a \<and> chat_key a = k) \<and> c = fst k)" for c
    by (auto simp: chat_key_def)
  have b2: "(\<exists>a. activeChat s = Some a \<and> c = chat_id a)
          = (\<exists>k. (\<exists>a. activeChat s = Some a \<and> chat_key a = k) \<and> c = fst k)" for c
    by (auto simp: chat_key_def)
  show ?thesis
    unfolding memory_ok_def assms(1,2,4) img a1 a2 b1 b2 act ..
qed

lemma switchModel_keys:
  "map chat_key (chats (switchModel model s)) = map chat_key (chats s)"
  "map chat_key (db_chats (switchModel model s)) = map chat_key (db_chats s)"
  "map chat_id (db_chats (switchModel model s)) = map chat_id (db_chats s)"
  "map_option chat_key (activeChat (switchModel model s)) = map_option chat_key (activeChat s)"
  "messages (switchModel model s) = messages s"
  "db_messages (switchModel model s) = db_messages s"
  "db_chats_key (switchModel model s) = db_chats_key s"
  "db_messages_key (switchModel model s) = db_messages_key s"
  by (simp_all add: switchModel_def dbLayer_updateChat_def Let_def split: option.splits)

lemma store_ok_switchModel: "store_ok (switchModel model s) = store_ok s"
  by (rule store_ok_chat_ids) (simp_all add: switchModel_keys)

lemma memory_ok_switchModel: "memory_ok (switchModel model s) = memory_ok s"
  by (rule memory_ok_keys) (simp_all add: switchModel_keys)

lemma inv_switchModel: "inv (switchModel model s) = inv s"
  by (simp add: inv_def store_ok_switchModel memory_ok_switchModel)

lemma inv_lists_ok: "inv s \<Longrightarrow> lists_ok s"
  by (simp add: inv_def lists_ok_def memory_ok_def)

lemma keys_image:
  "map chat_key xs = map chat_key ys \<Longrightarrow> chat_key ` set xs = chat_key ` set ys"
  by (metis set_map)

lemma keys_ids_image:
  "map chat_key xs = map chat_key ys \<Longrightarrow> chat_id ` set xs = chat_id ` set ys"
  by (metis ids_of_keys set_map)

lemma getChat_Some:
  "dbLayer_getChat cid s = Some c \<Longrightarrow> c \<in> set (db_chats s) \<and> chat_id c = cid"
  by (auto simp: dbLayer_getChat_def find_Some_iff)

lemma getChat_None:
  "dbLayer_getChat cid s = None \<longleftrightarrow> cid \<notin> chat_id ` set (db_chats s)"
  by (auto simp: dbLayer_getChat_def find_None_iff)

lemma inv_switchChat_found:
  assumes "lists_ok s" and "dbLayer_getChat cid s = Some c"
  shows "inv (switchChat cid s)"
proof -
  let ?s1 = "s\<lparr>activeChat := Some c, activeShared := False, messages := dbLayer_getMessages cid s\<rparr>"
  from assms(2) have c: "c \<in> set (db_chats s)" "chat_id c = cid"
    by (simp_all add: getChat_Some)
  from assms(1) have "map chat_key (chats s) = map chat_key (db_chats s)"
    by (simp add: lists_ok_def)
  then have img: "chat_key ` set (chats s) = chat_key ` set (db_chats s)"
    by (rule keys_image)
  have "store_ok ?s1" using assms(1) by (simp add: lists_ok_def store_ok_def)
  moreover have "memory_ok ?s1"
    using assms(1) c img by (auto simp: lists_ok_def memory_ok_def dbLayer_getMessages_def)
  ultimately have "inv ?s1" by (simp add: inv_def)
  then show ?thesis
    using assms(2) by (simp add: switchChat_def inv_switchModel)
qed

lemma inv_switchChat: "inv s \<Longrightarrow> inv (switchChat cid s)"
proof (cases "dbLayer_getChat cid s")
  case None
  assume "inv s"
  with None show ?thesis by (simp add: switchChat_def)
next
  case (Some c)
  assume "inv s"
  with Some show ?thesis by (simp add: inv_switchChat_found inv_lists_ok)
qed

lemma inv_frame [simp]:
  "inv (s\<lparr>systemPrompt := sp\<rparr>) = inv s"
  "inv (s\<lparr>ongoingAiMessages := og\<rparr>) = inv s"
  "inv (s\<lparr>currentModel := cm\<rparr>) = inv s"
  "inv (s\<lparr>historyMessageLength := h\<rparr>) = inv s"
  "inv (s\<lparr>now := t\<rparr>) = inv s"
  "inv (s\<lparr>ollama_requests := rq\<rparr>) = inv s"
  "inv (s\<lparr>activeShared := sh\<rparr>) = inv s"
  by (simp_all add: inv_def store_ok_def memory_ok_def)

lemma inv_fields:
  "db_chats s' = db_chats s \<Longrightarrow> db_messages s' = db_messages s \<Longrightarrow>
   db_chats_key s' = db_chats_key s \<Longrightarrow> db_messages_key s' = db_messages_key s \<Longrightarrow>
   chats s' = chats s \<Longrightarrow> activeChat s' = activeChat s \<Longrightarrow> messages s' = messages s \<Longrightarrow>
   inv s' = inv s"
  by (simp add: inv_def store_ok_def memory_ok_def)

lemma store_ok_addMessage:
  assumes "store_ok s" and "msg_chatId m \<in> chat_id ` set (db_chats s)"
  shows "store_ok (s\<lparr>db_messages := db_messages s @ [m\<lparr>msg_id := db_messages_key s\<rparr>],
                    db_messages_key := Suc (db_messages_key s)\<rparr>)"
proof -
  have lt: "\<forall>x \<in> set (db_messages s). msg_id x < db_messages_key s"
    using assms(1) by (simp add: store_ok_def)
  then have "db_messages_key s \<notin> msg_id ` set (db_messages s)" by auto
  moreover have "\<forall>x \<in> set (db_messages s). msg_id x < Suc (db_messages_key s)"
    using lt by (simp add: less_Suc_eq)
  ultimately show ?thesis
    using assms by (simp add: store_ok_def)
qed

lemma active_in_store:
  "memory_ok s \<Longrightarrow> activeChat s = Some a \<Longrightarrow> chat_id a \<in> chat_id ` set (db_chats s)"
proof -
  assume m: "memory_ok s" and a: "activeChat s = Some a"
  then have "chat_key a \<in> chat_key ` set (chats s)" by (simp add: memory_ok_def)
  then obtain c where "c \<in> set (chats s)" "chat_key a = chat_key c" by blast
  then have "chat_id a \<in> chat_id ` set (chats s)" by (auto simp: chat_key_def)
  moreover have "map chat_key (chats s) = map chat_key (db_chats s)"
    using m by (simp add: memory_ok_def)
  then have "chat_id ` set (chats s) = chat_id ` set (db_chats s)"
    by (rule keys_ids_image)
  ultimately show ?thesis by simp
qed

lemma inv_push_message:
  assumes "inv s" and "activeChat s = Some a" and "msg_chatId m = chat_id a"
  shows "inv (s\<lparr>db_messages := db_messages s @ [m\<lparr>msg_id := db_messages_key s\<rparr>],
               db_messages_key := Suc (db_messages_key s),
               messages := messages s @ [m\<lparr>msg_id := db_messages_key s\<rparr>]\<rparr>)"
proof -
  have "store_ok (s\<lparr>db_messages := db_messages s @ [m\<lparr>msg_id := db_messages_key s\<rparr>],
                    db_messages_key := Suc (db_messages_key s)\<rparr>)"
    using assms active_in_store [of s a] by (simp add: inv_def store_ok_addMessage)
  then have "store_ok (s\<lparr>db_messages := db_messages s @ [m\<lparr>msg_id := db_messages_key s\<rparr>],
               db_messages_key := Suc (db_messages_key s),
               messages := messages s @ [m\<lparr>msg_id := db_messages_key s\<rparr>]\<rparr>)"
    by (simp add: store_ok_def)
  moreover have "memory_ok (s\<lparr>db_messages := db_messages s @ [m\<lparr>msg_id := db_messages_key s\<rparr>],
               db_messages_key := Suc (db_messages_key s),
               messages := messages s @ [m\<lparr>msg_id := db_messages_key s\<rparr>]\<rparr>)"
    using assms by (simp add: inv_def memory_ok_def)
  ultimately show ?thesis by (simp add: inv_def)
qed

lemma addSystemMessage_eq:
  "addSystemMessage content meta s =
     (case activeChat s of
        None \<Rightarrow> s
      | Some a \<Rightarrow>
          if content = None \<or> content = Some [] then s
          else s\<lparr>db_messages := db_messages s @
                    [\<lparr>msg_id = db_messages_key s, msg_chatId = chat_id a, msg_role = System,
                      msg_content = the content, msg_meta = meta, msg_createdAt = now s\<rparr>],
                  db_messages_key := Suc (db_messages_key s),
                  messages := messages s @
                    [\<lparr>msg_id = db_messages_key s, msg_chatId = chat_id a, msg_role = System,
                      msg_content = the content, msg_meta = meta, msg_createdAt = now s\<rparr>],
                  systemPrompt := Some
                    \<lparr>msg_id = db_messages_key s, msg_chatId = chat_id a, msg_role = System,
                      msg_content = the content, msg_meta = meta, msg_createdAt = now s\<rparr>\<rparr>)"
  by (simp add: addSystemMessage_def dbLayer_addMessage_def Let_def split: option.splits)

lemma inv_addSystemMessage: "inv s \<Longrightarrow> inv (addSystemMessage content meta s)"
proof (cases "activeChat s")
  case None
  assume "inv s"
  with None show ?thesis by (simp add: addSystemMessage_eq)
next
  case (Some a)
  assume i: "inv s"
  show ?thesis
    using inv_push_message [OF i Some, of "\<lparr>msg_id = 0, msg_chatId = chat_id a, msg_role = System,
        msg_content = the content, msg_meta = meta, msg_createdAt = now s\<rparr>"] i Some
    by (simp add: addSystemMessage_eq)
qed

lemma inv_startNewChat:
  assumes "lists_ok s"
  shows "inv (startNewChat name sysmsg s)"
proof -
  let ?c = "\<lparr>chat_id = db_chats_key s, chat_name = name, chat_model = currentModel s,
             chat_createdAt = now s\<rparr>"
  let ?s2 = "s\<lparr>db_chats := db_chats s @ [?c], db_chats_key := Suc (db_chats_key s),
               chats := chats s @ [?c], activeChat := Some ?c, activeShared := True,
               messages := []\<rparr>"
  have eq: "startNewChat name sysmsg s = addSystemMessage sysmsg None ?s2"
    by (simp add: startNewChat_def dbLayer_addChat_def Let_def)
  have "\<forall>x \<in> set (db_chats s). 0 < chat_id x \<and> chat_id x < db_chats_key s"
    using assms by (simp add: lists_ok_def store_ok_def)
  then have "db_chats_key s \<notin> chat_id ` set (db_chats s)"
    and "\<forall>x \<in> set (db_chats s). chat_id x < Suc (db_chats_key s)"
    by (auto simp: less_Suc_eq)
  then have "store_ok ?s2"
    using assms by (auto simp: lists_ok_def store_ok_def)
  moreover have "memory_ok ?s2"
    using assms by (simp add: lists_ok_def memory_ok_def)
  ultimately show ?thesis
    unfolding eq by (intro inv_addSystemMessage) (simp add: inv_def)
qed

lemma sortedChats_set: "set (sortedChats s) = set (chats s)"
  by (simp add: sortedChats_def)

lemma sortedChats_Cons:
  "sortedChats s = c # cs \<Longrightarrow> c \<in> set (chats s)"
  by (metis list.set_intros(1) sortedChats_set)

lemma lists_ok_switch_head:
  assumes "lists_ok s" and "sortedChats s = c # cs"
  shows "inv (switchChat (chat_id c) s)"
proof -
  from assms(2) have "c \<in> set (chats s)" by (rule sortedChats_Cons)
  then have "chat_id c \<in> chat_id ` set (chats s)" by simp
  moreover have "map chat_key (chats s) = map chat_key (db_chats s)"
    using assms(1) by (simp add: lists_ok_def)
  then have "chat_id ` set (chats s) = chat_id ` set (db_chats s)"
    by (rule keys_ids_image)
  ultimately have "dbLayer_getChat (chat_id c) s \<noteq> None"
    by (simp add: getChat_None)
  then obtain d where "dbLayer_getChat (chat_id c) s = Some d" by blast
  with assms(1) show ?thesis by (rule inv_switchChat_found)
qed

lemma inv_initialize:
  assumes "store_ok s"
  shows "inv (initialize sysmsg s)"
proof -
  let ?s1 = "s\<lparr>chats := dbLayer_getAllChats s, activeShared := False\<rparr>"
  have l: "lists_ok ?s1"
    using assms by (simp add: lists_ok_def store_ok_def dbLayer_getAllChats_def)
  show ?thesis
  proof (cases "sortedChats ?s1")
    case Nil
    then have "set (chats ?s1) = {}"
      using sortedChats_set [of ?s1] by simp
    then have "chats ?s1 = []" by simp
    then show ?thesis
      using l by (simp add: initialize_def inv_startNewChat)
  next
    case (Cons c cs)
    then have "c \<in> set (chats ?s1)" by (rule sortedChats_Cons)
    then have "chats ?s1 \<noteq> []" by auto
    then show ?thesis
      using lists_ok_switch_head [OF l Cons] Cons by (simp add: initialize_def)
  qed
qed

lemma inv_store_ok: "inv s \<Longrightarrow> store_ok s"
  by (simp add: inv_def)

lemma renameChat_eq:
  "renameChat newName s =
     (case activeChat s of
        None \<Rightarrow> s
      | Some a \<Rightarrow>
          s\<lparr>activeChat := Some (a\<lparr>chat_name := newName\<rparr>),
            db_chats := map (\<lambda>c. if chat_id c = chat_id a then c\<lparr>chat_name := newName\<rparr> else c)
                          (db_chats s),
            chats := map (\<lambda>c. if chat_id c = chat_id a then c\<lparr>chat_name := newName\<rparr> else c)
                          (db_chats s),
            activeShared := False\<rparr>)"
  by (simp add: renameChat_def dbLayer_updateChat_def dbLayer_getAllChats_def Let_def
      split: option.splits)

lemma inv_renameChat:
  assumes "inv s"
  shows "inv (renameChat newName s)"
proof (cases "activeChat s")
  case None
  with assms show ?thesis by (simp add: renameChat_eq)
next
  case (Some a)
  let ?s' = "renameChat newName s"
  have k: "map chat_key (chats s) = map chat_key (db_chats s)"
    using assms by (simp add: inv_def memory_ok_def)
  have "store_ok ?s' = store_ok s"
    by (rule store_ok_chat_ids) (simp_all add: renameChat_eq Some)
  moreover have "memory_ok ?s' = memory_ok s"
    by (rule memory_ok_keys) (simp_all add: renameChat_eq Some k)
  ultimately show ?thesis
    using assms by (simp add: inv_def)
qed

lemma inv_wipeDatabase:
  assumes "store_ok s"
  shows "inv (wipeDatabase sysmsg s)"
proof -
  have "lists_ok (dbLayer_clearMessages (dbLayer_clearChats s)
          \<lparr>chats := [], activeChat := None, activeShared := False, messages := [],
            ongoingAiMessages := Map.empty\<rparr>)"
    using assms
    by (simp add: lists_ok_def store_ok_def dbLayer_clearMessages_def dbLayer_clearChats_def)
  then show ?thesis
    by (simp add: wipeDatabase_def Let_def inv_startNewChat)
qed

lemma filter_keys:
  "map chat_key xs = map chat_key ys \<Longrightarrow>
   map chat_key (filter (\<lambda>c. chat_id c \<noteq> k) xs) = map chat_key (filter (\<lambda>c. chat_id c \<noteq> k) ys)"
proof -
  assume a: "map chat_key xs = map chat_key ys"
  have "map chat_key (filter (\<lambda>c. chat_id c \<noteq> k) zs) = filter (\<lambda>p. fst p \<noteq> k) (map chat_key zs)" for zs
    by (induction zs) (simp_all add: chat_key_def)
  with a show ?thesis by simp
qed

lemma deleteChat_eq:
  "deleteChat chatId sysmsg s =
     (if (case activeChat s of None \<Rightarrow> False | Some a \<Rightarrow> chat_id a = chatId)
      then (case sortedChats (afterDelete chatId s) of
              [] \<Rightarrow> startNewChat ''New chat'' sysmsg (afterDelete chatId s)
            | c # _ \<Rightarrow> switchChat (chat_id c) (afterDelete chatId s))
      else afterDelete chatId s)"
  by (simp add: deleteChat_def afterDelete_def dbLayer_deleteChat_def
      dbLayer_deleteMessagesOfChat_def Let_def split: list.splits)

lemma store_ok_afterDelete:
  assumes "store_ok s"
  shows "store_ok (afterDelete k s)"
proof -
  have "msg_chatId m \<in> chat_id ` set (filter (\<lambda>c. chat_id c \<noteq> k) (db_chats s))"
    if "m \<in> set (db_messages s)" "msg_chatId m \<noteq> k" for m
  proof -
    from assms that(1) obtain c where "c \<in> set (db_chats s)" "chat_id c = msg_chatId m"
      unfolding store_ok_def by fastforce
    with that(2) show ?thesis by force
  qed
  then show ?thesis
    using assms by (simp add: store_ok_def afterDelete_def distinct_map_filter)
qed

lemma lists_ok_afterDelete:
  assumes "lists_ok s"
  shows "lists_ok (afterDelete k s)"
proof -
  have "map chat_key (chats s) = map chat_key (db_chats s)"
    using assms by (simp add: lists_ok_def)
  then have "map chat_key (filter (\<lambda>c. chat_id c \<noteq> k) (chats s))
      = map chat_key (filter (\<lambda>c. chat_id c \<noteq> k) (db_chats s))"
    by (rule filter_keys)
  then have "map chat_key (chats (afterDelete k s)) = map chat_key (db_chats (afterDelete k s))"
    by (simp add: afterDelete_def)
  then show ?thesis
    using assms by (simp add: lists_ok_def store_ok_afterDelete)
qed

lemma inv_afterDelete_other:
  assumes "inv s" and "\<not> (case activeChat s of None \<Rightarrow> False | Some a \<Rightarrow> chat_id a = k)"
  shows "inv (afterDelete k s)"
proof -
  have l: "lists_ok (afterDelete k s)"
    using assms(1) by (simp add: inv_lists_ok lists_ok_afterDelete)
  have "chat_key a \<in> chat_key ` set (filter (\<lambda>c. chat_id c \<noteq> k) (chats s))"
    if "activeChat s = Some a" for a
  proof -
    from assms(1) that obtain c where c: "c \<in> set (chats s)" "chat_key a = chat_key c"
      unfolding inv_def memory_ok_def by blast
    from assms(2) that have "chat_id a \<noteq> k" by simp
    with c have "chat_id c \<noteq> k" by (simp add: chat_key_def)
    with c show ?thesis by force
  qed
  moreover have "\<forall>m \<in> set (messages s). \<exists>a. activeChat s = Some a \<and> msg_chatId m = chat_id a"
    using assms(1) by (simp add: inv_def memory_ok_def)
  ultimately have "memory_ok (afterDelete k s)"
    using l by (simp add: memory_ok_def lists_ok_def afterDelete_def)
  with l show ?thesis by (simp add: inv_def lists_ok_def)
qed

lemma inv_deleteChat:
  assumes "inv s"
  shows "inv (deleteChat k sysmsg s)"
proof (cases "case activeChat s of None \<Rightarrow> False | Some a \<Rightarrow> chat_id a = k")
  case False
  with assms show ?thesis by (simp add: deleteChat_eq inv_afterDelete_other)
next
  case True
  have l: "lists_ok (afterDelete k s)"
    using assms by (simp add: inv_lists_ok lists_ok_afterDelete)
  show ?thesis
  proof (cases "sortedChats (afterDelete k s)")
    case Nil
    with True l show ?thesis by (simp add: deleteChat_eq inv_startNewChat)
  next
    case (Cons c cs)
    with True lists_ok_switch_head [OF l Cons] show ?thesis by (simp add: deleteChat_eq)
  qed
qed

subsection \<open>Streaming\<close>

lemma startAiMessage_eq:
  "startAiMessage cid s =
     s\<lparr>db_messages := db_messages s @ [aiEmpty (db_messages_key s) cid (now s)],
       db_messages_key := Suc (db_messages_key s),
       ongoingAiMessages := (ongoingAiMessages s)(cid \<mapsto> aiEmpty (db_messages_key s) cid (now s)),
       messages := messages s @ [aiEmpty (db_messages_key s) cid (now s)],
       ollama_requests := ollama_requests s @
          [(currentModel s, chatHistory (s\<lparr>messages := messages s @ [aiEmpty (db_messages_key s) cid (now s)]\<rparr>))]\<rparr>"
  by (simp add: startAiMessage_def dbLayer_addMessage_def Let_def aiEmpty_def chatHistory_def split: option.splits)

lemma onPart_frame:
  "db_chats (onPart cid p s) = db_chats s"
  "chats (onPart cid p s) = chats s"
  "activeChat (onPart cid p s) = activeChat s"
  "activeShared (onPart cid p s) = activeShared s"
  "db_chats_key (onPart cid p s) = db_chats_key s"
  "db_messages_key (onPart cid p s) = db_messages_key s"
  "systemPrompt (onPart cid p s) = systemPrompt s"
  "currentModel (onPart cid p s) = currentModel s"
  "historyMessageLength (onPart cid p s) = historyMessageLength s"
  "now (onPart cid p s) = now s"
  "ollama_requests (onPart cid p s) = ollama_requests s"
  by (simp_all add: onPart_def dbLayer_updateMessage_def dbLayer_getMessages_def Let_def split: option.splits)

lemma consume_frame:
  "db_chats (consume cid ps s) = db_chats s"
  "chats (consume cid ps s) = chats s"
  "activeChat (consume cid ps s) = activeChat s"
  "activeShared (consume cid ps s) = activeShared s"
  "db_chats_key (consume cid ps s) = db_chats_key s"
  "db_messages_key (consume cid ps s) = db_messages_key s"
  "systemPrompt (consume cid ps s) = systemPrompt s"
  "currentModel (consume cid ps s) = currentModel s"
  "historyMessageLength (consume cid ps s) = historyMessageLength s"
  "now (consume cid ps s) = now s"
  "ollama_requests (consume cid ps s) = ollama_requests s"
  by (induction ps arbitrary: s; simp add: onPart_frame)+

lemma setContent_maps [simp]:
  "map msg_id (setContent k txt ms) = map msg_id ms"
  "map msg_chatId (setContent k txt ms) = map msg_chatId ms"
  "map msg_role (setContent k txt ms) = map msg_role ms"
  "length (setContent k txt ms) = length ms"
  by (induction ms) (simp_all add: setContent_def)

lemma setContent_twice [simp]:
  "setContent k txt' (setContent k txt ms) = setContent k txt' ms"
  by (induction ms) (simp_all add: setContent_def)

lemma setContent_append [simp]:
  "setContent k txt (xs @ ys) = setContent k txt xs @ setContent k txt ys"
  by (simp add: setContent_def)

lemma setContent_fresh:
  "k \<notin> msg_id ` set ms \<Longrightarrow> setContent k txt ms = ms"
  by (induction ms) (auto simp: setContent_def)

lemma store_ok_messages:
  assumes "map msg_id (db_messages s') = map msg_id (db_messages s)"
    and "map msg_chatId (db_messages s') = map msg_chatId (db_messages s)"
    and "db_chats s' = db_chats s" "db_chats_key s' = db_chats_key s"
    and "db_messages_key s' = db_messages_key s"
  shows "store_ok s' = store_ok s"
proof -
  from assms(1) have "set (map msg_id (db_messages s')) = set (map msg_id (db_messages s))" by simp
  then have i: "msg_id ` set (db_messages s') = msg_id ` set (db_messages s)" by simp
  from assms(2) have "set (map msg_chatId (db_messages s')) = set (map msg_chatId (db_messages s))"
    by simp
  then have c: "msg_chatId ` set (db_messages s') = msg_chatId ` set (db_messages s)" by simp
  have "(\<forall>m \<in> set (db_messages s'). 0 < msg_id m \<and> msg_id m < db_messages_key s)
      = (\<forall>k \<in> msg_id ` set (db_messages s'). 0 < k \<and> k < db_messages_key s)" by blast
  also have "\<dots> = (\<forall>m \<in> set (db_messages s). 0 < msg_id m \<and> msg_id m < db_messages_key s)"
    unfolding i by blast
  finally have a: "(\<forall>m \<in> set (db_messages s'). 0 < msg_id m \<and> msg_id m < db_messages_key s)
      = (\<forall>m \<in> set (db_messages s). 0 < msg_id m \<and> msg_id m < db_messages_key s)" .
  have "(\<forall>m \<in> set (db_messages s'). msg_chatId m \<in> chat_id ` set (db_chats s))
      = (\<forall>k \<in> msg_chatId ` set (db_messages s'). k \<in> chat_id ` set (db_chats s))" by blast
  also have "\<dots> = (\<forall>m \<in> set (db_messages s). msg_chatId m \<in> chat_id ` set (db_chats s))"
    unfolding c by blast
  finally have b: "(\<forall>m \<in> set (db_messages s'). msg_chatId m \<in> chat_id ` set (db_chats s))
      = (\<forall>m \<in> set (db_messages s). msg_chatId m \<in> chat_id ` set (db_chats s))" .
  show ?thesis
    unfolding store_ok_def assms a b ..
qed

lemma onPart_active:
  assumes "activeChat s = Some a" and "chat_id a = cid" and "ongoingAiMessages s cid = Some ai"
  shows "onPart cid p s =
     s\<lparr>ongoingAiMessages :=
         (ongoingAiMessages s)(cid \<mapsto> ai\<lparr>msg_content := msg_content ai @ part_content p\<rparr>),
       db_messages := setContent (msg_id ai) (msg_content ai @ part_content p) (db_messages s),
       messages := filter (\<lambda>m. msg_chatId m = cid)
                     (setContent (msg_id ai) (msg_content ai @ part_content p) (db_messages s))\<rparr>"
  using assms
  by (simp add: onPart_def dbLayer_updateMessage_def dbLayer_getMessages_def Let_def setContent_def
      cong: if_cong)

lemma inv_onPart:
  assumes "inv s" and "activeChat s = Some a" and "chat_id a = cid"
  shows "inv (onPart cid p s)"
proof (cases "ongoingAiMessages s cid")
  case None
  with assms(1) show ?thesis by (simp add: onPart_def)
next
  case (Some ai)
  let ?s' = "onPart cid p s"
  note eq = onPart_active [OF assms(2,3) Some]
  have "store_ok ?s' = store_ok s"
    by (rule store_ok_messages) (simp_all add: eq)
  moreover have "memory_ok ?s'"
    using assms by (simp add: eq inv_def memory_ok_def)
  ultimately show ?thesis using assms(1) by (simp add: inv_def)
qed

lemma inv_consume:
  "inv s \<Longrightarrow> activeChat s = Some a \<Longrightarrow> chat_id a = cid \<Longrightarrow> inv (consume cid ps s)"
proof (induction ps arbitrary: s)
  case Nil
  then show ?case by simp
next
  case (Cons p ps)
  have "inv (onPart cid p s)" using Cons.prems by (rule inv_onPart)
  moreover have "activeChat (onPart cid p s) = Some a"
    using Cons.prems(2) by (simp add: onPart_frame)
  ultimately show ?case using Cons.IH Cons.prems(3) by simp
qed

lemma inv_onStreamEnd: "inv (snd (onStreamEnd cid e s)) = inv s"
  by (cases e) (simp_all add: onStreamEnd_def abort_def)

lemma inv_startAiMessage:
  assumes "inv s" and "activeChat s = Some a" and "chat_id a = cid"
  shows "inv (startAiMessage cid s)"
proof -
  have "inv (startAiMessage cid s) =
        inv (s\<lparr>db_messages := db_messages s @ [aiEmpty 0 cid (now s)\<lparr>msg_id := db_messages_key s\<rparr>],
               db_messages_key := Suc (db_messages_key s),
               messages := messages s @ [aiEmpty 0 cid (now s)\<lparr>msg_id := db_messages_key s\<rparr>]\<rparr>)"
    by (rule inv_fields) (simp_all add: startAiMessage_eq aiEmpty_def)
  then show ?thesis
    using inv_push_message [OF assms(1,2), of "aiEmpty 0 cid (now s)"] assms(3)
    by (simp add: aiEmpty_def)
qed

lemma startAiMessage_active: "activeChat (startAiMessage cid s) = activeChat s"
  by (simp add: startAiMessage_eq)

lemma inv_streamResponse:
  assumes "inv s" and "activeChat s = Some a" and "chat_id a = cid"
  shows "inv (snd (streamResponse cid r s))"
proof -
  have "inv (startAiMessage cid s)" using assms by (rule inv_startAiMessage)
  moreover have "activeChat (startAiMessage cid s) = Some a"
    using assms(2) by (simp add: startAiMessage_active)
  ultimately have "inv (consume cid (fst r) (startAiMessage cid s))"
    using assms(3) by (rule inv_consume)
  then show ?thesis by (simp add: streamResponse_def inv_onStreamEnd)
qed

lemma addUserMessage_eq:
  "activeChat s = Some a \<Longrightarrow>
   addUserMessage content r s =
     streamResponse (chat_id a) r
       (s\<lparr>db_messages := db_messages s @ [userMessage (db_messages_key s) (chat_id a) content (now s)],
          db_messages_key := Suc (db_messages_key s),
          messages := messages s @ [userMessage (db_messages_key s) (chat_id a) content (now s)]\<rparr>)"
  by (simp add: addUserMessage_def dbLayer_addMessage_def Let_def userMessage_def)

lemma inv_addUserMessage:
  assumes "inv s"
  shows "inv (snd (addUserMessage content r s))"
proof (cases "activeChat s")
  case None
  with assms show ?thesis by (simp add: addUserMessage_def)
next
  case (Some a)
  let ?s2 = "s\<lparr>db_messages := db_messages s @ [userMessage (db_messages_key s) (chat_id a) content (now s)],
          db_messages_key := Suc (db_messages_key s),
          messages := messages s @ [userMessage (db_messages_key s) (chat_id a) content (now s)]\<rparr>"
  have "inv ?s2"
    using inv_push_message [OF assms Some, of "userMessage 0 (chat_id a) content (now s)"]
    by (simp add: userMessage_def)
  moreover have "activeChat ?s2 = Some a" using Some by simp
  ultimately have "inv (snd (streamResponse (chat_id a) r ?s2))"
    by (rule inv_streamResponse) simp
  then show ?thesis by (simp add: addUserMessage_eq [OF Some])
qed

lemma regenerateResponse_eq:
  "activeChat s = Some a \<Longrightarrow>
   regenerateResponse r s = streamResponse (chat_id a) r (dropLast s)"
  by (simp add: regenerateResponse_def dropLast_def dbLayer_deleteMessage_def Let_def)

lemma inv_dropLast:
  assumes "inv s"
  shows "inv (dropLast s)"
proof -
  have "inv (s\<lparr>db_messages := filter P (db_messages s), messages := butlast (messages s)\<rparr>)" for P
    using assms
    by (auto simp: inv_def store_ok_def memory_ok_def distinct_map_filter dest: in_set_butlastD)
  from this [of "\<lambda>m. msg_id m \<noteq> msg_id (last (messages s))"] this [of "\<lambda>m. True"] assms
  show ?thesis by (simp add: dropLast_def)
qed

lemma inv_regenerateResponse:
  assumes "inv s"
  shows "inv (snd (regenerateResponse r s))"
proof (cases "activeChat s")
  case None
  with assms show ?thesis by (simp add: regenerateResponse_def)
next
  case (Some a)
  have "inv (dropLast s)" using assms by (rule inv_dropLast)
  moreover have "activeChat (dropLast s) = Some a" using Some by (simp add: dropLast_def)
  ultimately have "inv (snd (streamResponse (chat_id a) r (dropLast s)))"
    by (rule inv_streamResponse) simp
  then show ?thesis by (simp add: regenerateResponse_eq [OF Some])
qed

subsection \<open>Import\<close>

lemma stored_maps [simp]:
  "map msg_role (stored c k ms) = map msg_role ms"
  "map msg_content (stored c k ms) = map msg_content ms"
  "map msg_createdAt (stored c k ms) = map msg_createdAt ms"
  "length (stored c k ms) = length ms"
  by (induction ms arbitrary: k) simp_all

lemma stored_chatId: "m \<in> set (stored c k ms) \<Longrightarrow> msg_chatId m = c"
  by (induction ms arbitrary: k) auto

lemma stored_ids: "map msg_id (stored c k ms) = [k ..< k + length ms]"
  by (induction ms arbitrary: k) (simp_all add: upt_rec)

lemma importMessages_eq:
  "importMessages c ms s =
     s\<lparr>db_messages := db_messages s @ stored c (db_messages_key s) ms,
       db_messages_key := db_messages_key s + length ms\<rparr>"
  by (induction ms arbitrary: s) (simp_all add: dbLayer_addMessage_def Let_def)

lemma importChat_eq:
  "\<not> (ce_createdAt b = None \<and> ce_messages b = []) \<Longrightarrow>
   importChat b s =
     Inr (s\<lparr>db_chats := db_chats s @ [importedChat (db_chats_key s) b],
            db_chats_key := Suc (db_chats_key s),
            chats := chats s @ [importedChat (db_chats_key s) b],
            db_messages := db_messages s @ stored (db_chats_key s) (db_messages_key s) (ce_messages b),
            db_messages_key := db_messages_key s + length (ce_messages b)\<rparr>)"
  by (cases "ce_createdAt b"; cases "ce_messages b")
     (simp_all add: importChat_def importMessages_eq dbLayer_addChat_def importedChat_def Let_def)

lemma inv_importChat:
  assumes "inv s" and "importChat b s = Inr s'"
  shows "inv s'"
proof -
  from assms(2) have nf: "\<not> (ce_createdAt b = None \<and> ce_messages b = [])"
    by (auto simp: importChat_def)
  let ?c = "importedChat (db_chats_key s) b"
  let ?new = "stored (db_chats_key s) (db_messages_key s) (ce_messages b)"
  from assms(2) have s': "s' = s\<lparr>db_chats := db_chats s @ [?c],
            db_chats_key := Suc (db_chats_key s),
            chats := chats s @ [?c],
            db_messages := db_messages s @ ?new,
            db_messages_key := db_messages_key s + length (ce_messages b)\<rparr>"
    by (simp add: importChat_eq [OF nf])
  have so: "store_ok s" and mo: "memory_ok s" using assms(1) by (simp_all add: inv_def)
  have cid: "chat_id ?c = db_chats_key s" by (simp add: importedChat_def)
  have c1: "\<forall>c \<in> set (db_chats s). 0 < chat_id c \<and> chat_id c < db_chats_key s"
    using so by (simp add: store_ok_def)
  then have c2: "db_chats_key s \<notin> chat_id ` set (db_chats s)" by auto
  have m1: "\<forall>m \<in> set (db_messages s). 0 < msg_id m \<and> msg_id m < db_messages_key s"
    using so by (simp add: store_ok_def)
  have ids: "msg_id ` set ?new = {db_messages_key s ..< db_messages_key s + length (ce_messages b)}"
    by (metis stored_ids set_map set_upt)
  have k0: "0 < db_messages_key s" using so by (simp add: store_ok_def)
  have "\<forall>k \<in> msg_id ` set ?new. 0 < k \<and> k < db_messages_key s + length (ce_messages b)"
    unfolding ids using k0 by auto
  then have m2: "\<forall>m \<in> set ?new. 0 < msg_id m \<and> msg_id m < db_messages_key s + length (ce_messages b)"
    by blast
  have m3: "msg_id ` set (db_messages s) \<inter> msg_id ` set ?new = {}"
    using ids m1 by auto
  have m4: "distinct (map msg_id ?new)" by (simp add: stored_ids)
  have "store_ok s'"
    unfolding store_ok_def s'
    using so c1 c2 m1 m2 m3 m4 cid
    by (auto simp: store_ok_def dest: stored_chatId)
  moreover have "memory_ok s'"
    using mo by (auto simp: memory_ok_def s')
  ultimately show ?thesis by (simp add: inv_def)
qed

lemma inv_importChats: "inv s \<Longrightarrow> inv (snd (importChats bs s))"
proof (induction bs arbitrary: s)
  case Nil
  then show ?case by simp
next
  case (Cons b bs)
  show ?case
  proof (cases "importChat b s")
    case (Inl e)
    then show ?thesis using Cons.IH [OF Cons.prems] by (simp add: case_prod_unfold Let_def)
  next
    case (Inr s1)
    with Cons.prems have "inv s1" by (simp add: inv_importChat)
    then show ?thesis using Cons.IH Inr by simp
  qed
qed

subsection \<open>Reachable states\<close>

lemma inv_newSession: "inv s \<Longrightarrow> store_ok (newSession s)"
  by (simp add: inv_def store_ok_def newSession_def)

lemma inv_step: "inv s \<Longrightarrow> inv (step a s)"
proof (cases a)
  case (Initialize x)
  assume "inv s" then show ?thesis by (simp add: Initialize inv_initialize inv_store_ok)
next
  case (Reload x)
  assume "inv s" then show ?thesis by (simp add: Reload inv_initialize inv_newSession)
next
  case (WipeDatabase x)
  assume "inv s" then show ?thesis by (simp add: WipeDatabase inv_wipeDatabase inv_store_ok)
next
  case (StartNewChat n x)
  assume "inv s" then show ?thesis by (simp add: StartNewChat inv_startNewChat inv_lists_ok)
qed (simp_all add: inv_switchChat inv_switchModel inv_renameChat inv_addSystemMessage
      inv_addUserMessage inv_regenerateResponse inv_deleteChat inv_importChats abort_def)

lemma reachable_inv: "reachable s \<Longrightarrow> inv s"
proof (induction rule: reachable.induct)
  case (reach_first sysmsg model h t)
  have "store_ok (firstRun model h t)" by (simp add: store_ok_def firstRun_def)
  then show ?case by (rule inv_initialize)
next
  case (reach_step s a)
  then show ?case by (simp add: inv_step)
qed

section \<open>The exchange in closed form\<close>

lemma consume_Cons:
  assumes "activeChat s = Some a" and "chat_id a = cid" and "ongoingAiMessages s cid = Some ai"
  shows "consume cid (p # ps) s =
     s\<lparr>ongoingAiMessages :=
         (ongoingAiMessages s)
           (cid \<mapsto> ai\<lparr>msg_content := msg_content ai @ concat (map part_content (p # ps))\<rparr>),
       db_messages :=
         setContent (msg_id ai) (msg_content ai @ concat (map part_content (p # ps))) (db_messages s),
       messages := filter (\<lambda>m. msg_chatId m = cid)
         (setContent (msg_id ai) (msg_content ai @ concat (map part_content (p # ps)))
            (db_messages s))\<rparr>"
  using assms
proof (induction ps arbitrary: s ai p)
  case Nil
  show ?case
    by (simp only: consume.simps onPart_active [OF Nil.prems] list.map concat.simps append_Nil2)
next
  case (Cons q qs)
  let ?ai1 = "ai\<lparr>msg_content := msg_content ai @ part_content p\<rparr>"
  let ?s1 = "onPart cid p s"
  have s1: "?s1 = s\<lparr>ongoingAiMessages := (ongoingAiMessages s)(cid \<mapsto> ?ai1),
       db_messages := setContent (msg_id ai) (msg_content ai @ part_content p) (db_messages s),
       messages := filter (\<lambda>m. msg_chatId m = cid)
                     (setContent (msg_id ai) (msg_content ai @ part_content p) (db_messages s))\<rparr>"
    using Cons.prems by (rule onPart_active)
  have a1: "activeChat ?s1 = Some a" using Cons.prems(1) by (simp add: onPart_frame)
  have o1: "ongoingAiMessages ?s1 cid = Some ?ai1" by (simp add: s1)
  have "consume cid (p # q # qs) s = consume cid (q # qs) ?s1" by simp
  also have "\<dots> = ?s1\<lparr>ongoingAiMessages :=
         (ongoingAiMessages ?s1)
           (cid \<mapsto> ?ai1\<lparr>msg_content := msg_content ?ai1 @ concat (map part_content (q # qs))\<rparr>),
       db_messages :=
         setContent (msg_id ?ai1) (msg_content ?ai1 @ concat (map part_content (q # qs))) (db_messages ?s1),
       messages := filter (\<lambda>m. msg_chatId m = cid)
         (setContent (msg_id ?ai1) (msg_content ?ai1 @ concat (map part_content (q # qs)))
            (db_messages ?s1))\<rparr>"
    using a1 Cons.prems(2) o1 by (rule Cons.IH)
  also have "\<dots> = s\<lparr>ongoingAiMessages :=
         (ongoingAiMessages s)
           (cid \<mapsto> ai\<lparr>msg_content := msg_content ai @ concat (map part_content (p # q # qs))\<rparr>),
       db_messages :=
         setContent (msg_id ai) (msg_content ai @ concat (map part_content (p # q # qs))) (db_messages s),
       messages := filter (\<lambda>m. msg_chatId m = cid)
         (setContent (msg_id ai) (msg_content ai @ concat (map part_content (p # q # qs)))
            (db_messages s))\<rparr>"
    by (simp add: s1)
  finally show ?case .
qed

lemma streamResponse_midStream:
  "streamResponse cid (ps, e) s = onStreamEnd cid e (midStream cid ps s)"
  by (simp add: streamResponse_def midStream_def)

lemma midStream_store:
  assumes "activeChat s = Some a" and "chat_id a = cid"
    and "\<forall>m \<in> set (db_messages s). msg_id m < db_messages_key s"
  shows "db_messages (midStream cid ps s) =
           db_messages s @ [withText (concat (map part_content ps)) (aiEmpty (db_messages_key s) cid (now s))]"
    and "ongoingAiMessages (midStream cid ps s) cid =
           Some (withText (concat (map part_content ps)) (aiEmpty (db_messages_key s) cid (now s)))"
    and "messages (midStream cid ps s) =
           (if ps = [] then messages s @ [aiEmpty (db_messages_key s) cid (now s)]
            else filter (\<lambda>m. msg_chatId m = cid) (db_messages (midStream cid ps s)))"
proof -
  let ?ai = "aiEmpty (db_messages_key s) cid (now s)"
  let ?s0 = "startAiMessage cid s"
  have a0: "activeChat ?s0 = Some a" using assms(1) by (simp add: startAiMessage_eq)
  have o0: "ongoingAiMessages ?s0 cid = Some ?ai" by (simp add: startAiMessage_eq)
  have d0: "db_messages ?s0 = db_messages s @ [?ai]" by (simp add: startAiMessage_eq)
  have fresh: "db_messages_key s \<notin> msg_id ` set (db_messages s)" using assms(3) by auto
  have sc: "setContent (db_messages_key s) w (db_messages s @ [?ai]) = db_messages s @ [withText w ?ai]" for w
    using fresh by (simp add: setContent_fresh) (simp add: setContent_def aiEmpty_def withText_def)
  show "db_messages (midStream cid ps s) =
           db_messages s @ [withText (concat (map part_content ps)) ?ai]"
  proof (cases ps)
    case Nil
    then show ?thesis by (simp add: midStream_def d0 withText_def aiEmpty_def)
  next
    case (Cons q qs)
    show ?thesis
      unfolding midStream_def Cons consume_Cons [OF a0 assms(2) o0]
      using sc [of "concat (map part_content (q # qs))"]
      by (simp add: d0 aiEmpty_def)
  qed
  show "ongoingAiMessages (midStream cid ps s) cid = Some (withText (concat (map part_content ps)) ?ai)"
  proof (cases ps)
    case Nil
    then show ?thesis by (simp add: midStream_def o0 withText_def aiEmpty_def)
  next
    case (Cons q qs)
    show ?thesis
      unfolding midStream_def Cons consume_Cons [OF a0 assms(2) o0]
      by (simp add: withText_def aiEmpty_def)
  qed
  show "messages (midStream cid ps s) =
           (if ps = [] then messages s @ [?ai]
            else filter (\<lambda>m. msg_chatId m = cid) (db_messages (midStream cid ps s)))"
  proof (cases ps)
    case Nil
    then show ?thesis by (simp add: midStream_def startAiMessage_eq)
  next
    case (Cons q qs)
    show ?thesis
      unfolding midStream_def Cons consume_Cons [OF a0 assms(2) o0]
      by simp
  qed
qed

lemma midStream_frame:
  "db_chats (midStream cid ps s) = db_chats s"
  "chats (midStream cid ps s) = chats s"
  "activeChat (midStream cid ps s) = activeChat s"
  "db_chats_key (midStream cid ps s) = db_chats_key s"
  "db_messages_key (midStream cid ps s) = Suc (db_messages_key s)"
  "systemPrompt (midStream cid ps s) = systemPrompt s"
  "currentModel (midStream cid ps s) = currentModel s"
  "historyMessageLength (midStream cid ps s) = historyMessageLength s"
  "now (midStream cid ps s) = now s"
  "ollama_requests (midStream cid ps s) = ollama_requests s @
     [(currentModel s, chatHistory (s\<lparr>messages := messages s @ [aiEmpty (db_messages_key s) cid (now s)]\<rparr>))]"
  by (simp_all add: midStream_def consume_frame startAiMessage_eq)

lemma onStreamEnd_frame:
  "db_chats (snd (onStreamEnd cid e s)) = db_chats s"
  "db_messages (snd (onStreamEnd cid e s)) = db_messages s"
  "messages (snd (onStreamEnd cid e s)) = messages s"
  "chats (snd (onStreamEnd cid e s)) = chats s"
  "activeChat (snd (onStreamEnd cid e s)) = activeChat s"
  "ollama_requests (snd (onStreamEnd cid e s)) = ollama_requests s"
  "db_messages_key (snd (onStreamEnd cid e s)) = db_messages_key s"
  by (cases e; simp add: onStreamEnd_def abort_def)+

section \<open>The example states are reachable\<close>

lemmas example_defs = chatA_def chatB_def freshChat_def sysA_def sysB_def twoPrompts_def
  userHi_def chatImported_def userLast_def firstRun_def briefChat_def sMistral_def

lemmas op_defs = initialize_def startNewChat_def addSystemMessage_def switchChat_def
  switchModel_def sortedChats_def dbLayer_addChat_def dbLayer_addMessage_def
  dbLayer_getAllChats_def dbLayer_getChat_def dbLayer_getMessages_def dbLayer_updateChat_def
  Let_def

lemma reachable_run: "reachable s \<Longrightarrow> reachable (run as s)"
  by (induction as arbitrary: s) (simp_all add: reachable.reach_step)

lemma freshChat_run: "freshChat = initialize None (firstRun ''llama3'' (Some 10) 1000)"
  by (simp add: example_defs op_defs)

lemma twoPrompts_run:
  "twoPrompts = run [StartNewChat ''B'' (Some ''Be formal''), SwitchChat 1]
                  (initialize (Some ''Be brief'') (firstRun ''llama3'' (Some 10) 1000))"
  by (simp add: example_defs op_defs)

lemma userLast_run:
  "userLast = run [ImportChats [\<lparr>ce_id = 7, ce_name = ''Saved'', ce_model = ''llama3'',
                                ce_createdAt = Some 500,
                                ce_messages = [\<lparr>msg_id = 9, msg_chatId = 7, msg_role = User,
                                   msg_content = ''hi'', msg_meta = None, msg_createdAt = 501\<rparr>]\<rparr>],
                   SwitchChat 2]
                  (initialize None (firstRun ''llama3'' (Some 10) 1000))"
  by (simp add: example_defs op_defs importChat_def)

lemma briefChat_run:
  "briefChat = run [AddUserMessage ''hi'' ([], StreamDone)]
                 (initialize (Some ''Be brief'') (firstRun ''llama3'' (Some 2) 1000))"
  by (simp add: example_defs op_defs addUserMessage_def streamResponse_def
      startAiMessage_def onStreamEnd_def chatHistory_def js_slice_def
      userMessage_def aiEmpty_def)

lemma sMistral_run:
  "sMistral = run [StartNewChat ''B'' None, SwitchChat 1, SwitchModel ''mistral'']
                (initialize None (firstRun ''llama3'' (Some 10) 1000))"
  by (simp add: example_defs op_defs)

lemma example_states_reachable:
  "reachable freshChat \<and> reachable (freshChat\<lparr>historyMessageLength := Some 0\<rparr>) \<and>
   reachable twoPrompts \<and> reachable userLast \<and> reachable briefChat \<and> reachable sMistral"
proof -
  have f: "reachable freshChat"
    unfolding freshChat_run by (rule reachable.reach_first)
  have "reachable (step (SetHistoryLength (Some 0)) freshChat)"
    using f by (rule reachable.reach_step)
  then have z: "reachable (freshChat\<lparr>historyMessageLength := Some 0\<rparr>)" by simp
  have t: "reachable twoPrompts"
    unfolding twoPrompts_run by (rule reachable_run) (rule reachable.reach_first)
  have u: "reachable userLast"
    unfolding userLast_run by (rule reachable_run) (rule reachable.reach_first)
  have b: "reachable briefChat"
    unfolding briefChat_run by (rule reachable_run) (rule reachable.reach_first)
  have m: "reachable sMistral"
    unfolding sMistral_run by (rule reachable_run) (rule reachable.reach_first)
  from f z t u b m show ?thesis by blast
qed

section \<open>Claims\<close>

subsection \<open>The history sent to the backend\<close>

lemma js_slice_lastN: "0 < n \<Longrightarrow> js_slice (- n) xs = lastN (nat n) xs"
  by (simp add: js_slice_def lastN_def nat_diff_distrib' max_def)

lemma ownSystemPrompt_messages [simp]:
  "ownSystemPrompt (s\<lparr>messages := ms\<rparr>) = ownSystemPrompt s"
  by (simp add: ownSystemPrompt_def split: option.splits)

lemma chatHistory_spec:
  "historyMessageLength s = Some n \<Longrightarrow> 0 < n \<Longrightarrow> systemPrompt s = ownSystemPrompt s' \<Longrightarrow>
   historyMessageLength s' = Some n \<Longrightarrow> messages s' = messages s \<Longrightarrow>
   chatHistory s = spec_chatHistory s'"
  by (simp add: chatHistory_def spec_chatHistory_def js_slice_lastN split: option.splits)

lemma streamResponse_requests:
  "ollama_requests (snd (streamResponse cid r s)) =
     ollama_requests s @
     [(currentModel s, chatHistory (s\<lparr>messages := messages s @ [aiEmpty (db_messages_key s) cid (now s)]\<rparr>))]"
  by (cases r) (simp add: streamResponse_midStream onStreamEnd_frame midStream_frame)

text \<open>
  Claim C1, as amended. Let the configured history length \<open>n\<close> be positive and let the
  \<^verbatim>\<open>systemPrompt\<close> ref be in step with the active chat: it holds that chat's own
  system-prompt message, or is unset when the chat has none. Then the message list that
  \<^verbatim>\<open>addUserMessage\<close> and \<^verbatim>\<open>regenerateResponse\<close> send to the backend is the history of the
  specification, taken over the message list as it stands at that moment: the last \<open>n\<close>
  entries (all of them when there are fewer) of the list, which ends with the empty
  assistant message just created, with the chat's own system-prompt message in front
  when there is one.
\<close>

theorem history_is_window_for_positive_length:
  assumes "activeChat s = Some a" and "historyMessageLength s = Some n" and "0 < n"
    and "systemPrompt s = ownSystemPrompt s"
  shows "ollama_requests (snd (addUserMessage content r s)) =
           ollama_requests s @
           [(currentModel s,
             spec_chatHistory
               (s\<lparr>messages := messages s @
                   [userMessage (db_messages_key s) (chat_id a) content (now s),
                    aiEmpty (Suc (db_messages_key s)) (chat_id a) (now s)]\<rparr>))] \<and>
         ollama_requests (snd (regenerateResponse r s)) =
           ollama_requests s @
           [(currentModel s,
             spec_chatHistory
               (s\<lparr>messages := messages (dropLast s) @
                   [aiEmpty (db_messages_key s) (chat_id a) (now s)]\<rparr>))] \<and>
         spec_chatHistory
           (s\<lparr>messages := messages s @
               [userMessage (db_messages_key s) (chat_id a) content (now s),
                aiEmpty (Suc (db_messages_key s)) (chat_id a) (now s)]\<rparr>) =
           (case ownSystemPrompt s of None \<Rightarrow> [] | Some p \<Rightarrow> [p]) @
           lastN (nat n)
             (messages s @
              [userMessage (db_messages_key s) (chat_id a) content (now s),
               aiEmpty (Suc (db_messages_key s)) (chat_id a) (now s)])"
proof (intro conjI)
  let ?u = "userMessage (db_messages_key s) (chat_id a) content (now s)"
  let ?ai = "aiEmpty (Suc (db_messages_key s)) (chat_id a) (now s)"
  let ?built = "s\<lparr>db_messages := db_messages s @ [?u],
                   db_messages_key := Suc (db_messages_key s),
                   messages := messages s @ [?u, ?ai]\<rparr>"
  have "chatHistory ?built = spec_chatHistory (s\<lparr>messages := messages s @ [?u, ?ai]\<rparr>)"
    using assms(2,3,4) by (intro chatHistory_spec [where n = n]) simp_all
  then show "ollama_requests (snd (addUserMessage content r s)) =
           ollama_requests s @
           [(currentModel s, spec_chatHistory (s\<lparr>messages := messages s @ [?u, ?ai]\<rparr>))]"
    by (simp add: addUserMessage_eq [OF assms(1)] streamResponse_requests)
  let ?ai' = "aiEmpty (db_messages_key s) (chat_id a) (now s)"
  have d: "historyMessageLength (dropLast s) = Some n" "systemPrompt (dropLast s) = systemPrompt s"
    "currentModel (dropLast s) = currentModel s" "ollama_requests (dropLast s) = ollama_requests s"
    "db_messages_key (dropLast s) = db_messages_key s" "now (dropLast s) = now s"
    using assms(2) by (simp_all add: dropLast_def)
  have "chatHistory ((dropLast s)\<lparr>messages := messages (dropLast s) @ [?ai']\<rparr>)
      = spec_chatHistory (s\<lparr>messages := messages (dropLast s) @ [?ai']\<rparr>)"
    using assms(2,3,4) d by (intro chatHistory_spec [where n = n]) simp_all
  then show "ollama_requests (snd (regenerateResponse r s)) =
           ollama_requests s @
           [(currentModel s,
             spec_chatHistory (s\<lparr>messages := messages (dropLast s) @ [?ai']\<rparr>))]"
    using d by (simp add: regenerateResponse_eq [OF assms(1)] streamResponse_requests)
  show "spec_chatHistory (s\<lparr>messages := messages s @ [?u, ?ai]\<rparr>) =
           (case ownSystemPrompt s of None \<Rightarrow> [] | Some p \<Rightarrow> [p]) @
           lastN (nat n) (messages s @ [?u, ?ai])"
    using assms(2) by (simp add: spec_chatHistory_def)
qed

theorem history_is_window_for_positive_length_witness:
  "activeChat briefChat = Some chatA \<and> historyMessageLength briefChat = Some 2 \<and>
   (0::int) < 2 \<and> systemPrompt briefChat = ownSystemPrompt briefChat \<and>
   length (messages briefChat) = 3 \<and>
   ollama_requests (snd (addUserMessage ''more'' ([], StreamDone) briefChat)) =
     ollama_requests briefChat @
     [(''llama3'', [sysA, userMessage 4 1 ''more'' 1000, aiEmpty 5 1 1000])] \<and>
   ollama_requests (snd (regenerateResponse ([], StreamDone) briefChat)) =
     ollama_requests briefChat @
     [(''llama3'', [sysA, userMessage 2 1 ''hi'' 1000, aiEmpty 4 1 1000])]"
proof -
  have a: "activeChat briefChat = Some chatA" by (simp add: briefChat_def)
  have h: "historyMessageLength briefChat = Some 2" by (simp add: briefChat_def)
  have p: "systemPrompt briefChat = ownSystemPrompt briefChat"
    by (simp add: briefChat_def ownSystemPrompt_def chatA_def sysA_def)
  have o: "ownSystemPrompt briefChat = Some sysA"
    by (simp add: briefChat_def ownSystemPrompt_def chatA_def sysA_def)
  have l: "length (messages briefChat) = 3" by (simp add: briefChat_def)
  have v: "db_messages_key briefChat = 4" "chat_id chatA = 1" "now briefChat = 1000"
    "currentModel briefChat = ''llama3''"
    "messages briefChat = [sysA, userMessage 2 1 ''hi'' 1000, aiEmpty 3 1 1000]"
    by (simp_all add: briefChat_def chatA_def)
  have d: "messages (dropLast briefChat) = [sysA, userMessage 2 1 ''hi'' 1000]"
    by (simp add: dropLast_def v aiEmpty_def)
  have s1: "spec_chatHistory
      (briefChat\<lparr>messages := messages briefChat @
          [userMessage 4 1 ''more'' 1000, aiEmpty (Suc 4) 1 1000]\<rparr>)
      = [sysA, userMessage 4 1 ''more'' 1000, aiEmpty 5 1 1000]"
    by (simp add: spec_chatHistory_def o h v lastN_def)
  have s2: "spec_chatHistory
      (briefChat\<lparr>messages := messages (dropLast briefChat) @ [aiEmpty 4 1 1000]\<rparr>)
      = [sysA, userMessage 2 1 ''hi'' 1000, aiEmpty 4 1 1000]"
    by (simp add: spec_chatHistory_def o h d lastN_def)
  note t = history_is_window_for_positive_length
      [OF a h _ p, where content = "''more''" and r = "([], StreamDone)", unfolded v(1-4) s1 s2]
  have z: "(0::int) < 2" by simp
  from t [OF z] a h p l z show ?thesis
    unfolding v(4) by blast
qed

text \<open>
  The claim as stated fails in two ways. With history length 0 and no system prompt,
  \<^verbatim>\<open>addUserMessage('hi')\<close> on a fresh chat sends both messages of the list,
  \<^verbatim>\<open>slice(-0)\<close> being the whole array, where the claim has an empty window. In
  \<open>twoPrompts\<close> the first chat is active and the ref holds the system message of the
  second chat, which is what gets sent in front. The stream delivers no part, so the
  list and the configuration in the final state are those the history was built from.
\<close>

theorem history_window_counterexample:
  "historyMessageLength (freshChat\<lparr>historyMessageLength := Some 0\<rparr>) = Some 0 \<and>
   snd (last (ollama_requests
     (snd (addUserMessage ''hi'' ([], StreamDone) (freshChat\<lparr>historyMessageLength := Some 0\<rparr>)))))
     = [userMessage 1 1 ''hi'' 1000, aiEmpty 2 1 1000] \<and>
   spec_chatHistory
     (snd (addUserMessage ''hi'' ([], StreamDone) (freshChat\<lparr>historyMessageLength := Some 0\<rparr>)))
     = [] \<and>
   snd (last (ollama_requests
     (snd (addUserMessage ''hi'' ([], StreamDone) (freshChat\<lparr>historyMessageLength := Some 0\<rparr>)))))
     \<noteq> spec_chatHistory
     (snd (addUserMessage ''hi'' ([], StreamDone) (freshChat\<lparr>historyMessageLength := Some 0\<rparr>))) \<and>
   activeChat twoPrompts = Some chatA \<and>
   snd (last (ollama_requests (snd (addUserMessage ''hi'' ([], StreamDone) twoPrompts))))
     = [sysB, sysA, userMessage 3 1 ''hi'' 1000, aiEmpty 4 1 1000] \<and>
   spec_chatHistory (snd (addUserMessage ''hi'' ([], StreamDone) twoPrompts))
     = [sysA, sysA, userMessage 3 1 ''hi'' 1000, aiEmpty 4 1 1000] \<and>
   snd (last (ollama_requests (snd (addUserMessage ''hi'' ([], StreamDone) twoPrompts))))
     \<noteq> spec_chatHistory (snd (addUserMessage ''hi'' ([], StreamDone) twoPrompts)) \<and>
   msg_chatId sysB \<noteq> chat_id chatA"
  by (simp add: example_defs addUserMessage_def streamResponse_def startAiMessage_def
      onStreamEnd_def chatHistory_def js_slice_def dbLayer_addMessage_def Let_def
      spec_chatHistory_def ownSystemPrompt_def lastN_def userMessage_def aiEmpty_def)

subsection \<open>Import of a bundle without timestamp and messages\<close>

text \<open>
  Claim C10. For every bundle whose \<^verbatim>\<open>createdAt\<close> is absent and whose message list is
  empty, the import callback faults with a \<^verbatim>\<open>TypeError\<close> while reading
  \<^verbatim>\<open>messages[0].createdAt\<close>: no chat is stored or listed for it, the state is the one the
  remaining bundles produce, and the fault is recorded as a rejection rather than
  handled. The callback faults for no other bundle.
\<close>

theorem importChats_empty_bundle_faults:
  "(importChat b s = Inl TypeError \<longleftrightarrow> ce_createdAt b = None \<and> ce_messages b = []) \<and>
   (ce_createdAt b = None \<and> ce_messages b = [] \<longrightarrow>
      importChats (b # rest) s
        = (TypeError # fst (importChats rest s), snd (importChats rest s)))"
  by (auto simp: importChat_def Let_def split: option.splits list.splits prod.splits)

theorem importChats_empty_bundle_faults_witness:
  "importChat \<lparr>ce_id = 0, ce_name = ''lost'', ce_model = ''llama3'', ce_createdAt = None,
               ce_messages = []\<rparr> freshChat = Inl TypeError \<and>
   importChats [\<lparr>ce_id = 0, ce_name = ''lost'', ce_model = ''llama3'', ce_createdAt = None,
                 ce_messages = []\<rparr>] freshChat = ([TypeError], freshChat)"
  using importChats_empty_bundle_faults
    [of "\<lparr>ce_id = 0, ce_name = ''lost'', ce_model = ''llama3'', ce_createdAt = None,
           ce_messages = []\<rparr>" freshChat "[]"]
  by simp

subsection \<open>Regenerating after a user message\<close>

lemma store_ok_fresh_key:
  "store_ok s \<Longrightarrow> \<forall>m \<in> set (db_messages s). msg_id m < db_messages_key s"
  by (simp add: store_ok_def)

lemma dropLast_user:
  "messages s \<noteq> [] \<Longrightarrow> msg_role (last (messages s)) = User \<Longrightarrow> dropLast s = s"
  by (simp add: dropLast_def)

text \<open>
  Claim C2, as amended. In a state with an active chat whose last message has role
  user, \<^verbatim>\<open>regenerateResponse\<close> deletes nothing, but it is not a no-op: it stores one new
  assistant message for the active chat, created empty and filled with the streamed
  text, after the messages already stored, and opens one stream with the history built
  from the unchanged list plus that message.
\<close>

theorem regenerate_after_user_message_adds_reply:
  assumes "activeChat s = Some a" and "messages s \<noteq> []"
    and "msg_role (last (messages s)) = User" and "store_ok s"
  shows "db_messages (snd (regenerateResponse (ps, e) s)) =
           db_messages s @
           [withText (concat (map part_content ps))
              (aiEmpty (db_messages_key s) (chat_id a) (now s))] \<and>
         ollama_requests (snd (regenerateResponse (ps, e) s)) =
           ollama_requests s @
           [(currentModel s,
             chatHistory (s\<lparr>messages := messages s @
                [aiEmpty (db_messages_key s) (chat_id a) (now s)]\<rparr>))] \<and>
         messages (snd (regenerateResponse ([], e) s)) =
           messages s @ [aiEmpty (db_messages_key s) (chat_id a) (now s)]"
proof -
  have d: "dropLast s = s" using assms(2,3) by (rule dropLast_user)
  have f: "\<forall>m \<in> set (db_messages s). msg_id m < db_messages_key s"
    using assms(4) by (rule store_ok_fresh_key)
  show ?thesis
    using midStream_store(1) [OF assms(1) refl f, of ps]
      midStream_store(3) [OF assms(1) refl f, of "[]"]
    by (simp add: regenerateResponse_eq [OF assms(1)] d streamResponse_midStream
        onStreamEnd_frame midStream_frame)
qed

theorem regenerate_after_user_message_adds_reply_witness:
  "activeChat userLast = Some chatImported \<and> messages userLast \<noteq> [] \<and>
   msg_role (last (messages userLast)) = User \<and> store_ok userLast \<and>
   db_messages (snd (regenerateResponse
      ([\<lparr>part_content = ''Hel'', part_done = False\<rparr>, \<lparr>part_content = ''lo'', part_done = True\<rparr>],
       StreamDone) userLast)) =
     [userHi, withText ''Hello'' (aiEmpty 2 2 1000)]"
proof -
  have a: "activeChat userLast = Some chatImported" by (simp add: userLast_def)
  have m: "messages userLast \<noteq> []" by (simp add: userLast_def)
  have u: "msg_role (last (messages userLast)) = User" by (simp add: userLast_def userHi_def)
  have o: "store_ok userLast"
    by (simp add: userLast_def store_ok_def userHi_def chatA_def chatImported_def)
  show ?thesis
    using a m u o regenerate_after_user_message_adds_reply [OF a m u o,
        of "[\<lparr>part_content = ''Hel'', part_done = False\<rparr>, \<lparr>part_content = ''lo'', part_done = True\<rparr>]"
           StreamDone]
    by (simp add: userLast_def chatImported_def)
qed

text \<open>
  The claim as stated fails in \<open>userLast\<close>, where the active chat's only message is a user
  message: \<^verbatim>\<open>regenerateResponse\<close> stores a second message and sends one request.
\<close>

theorem regenerate_after_user_message_counterexample:
  "activeChat userLast = Some chatImported \<and> msg_role (last (messages userLast)) = User \<and>
   db_messages userLast = [userHi] \<and> ollama_requests userLast = [] \<and>
   db_messages (snd (regenerateResponse ([], StreamDone) userLast)) = [userHi, aiEmpty 2 2 1000] \<and>
   ollama_requests (snd (regenerateResponse ([], StreamDone) userLast)) =
     [(''llama3'', [userHi, aiEmpty 2 2 1000])] \<and>
   snd (regenerateResponse ([], StreamDone) userLast) \<noteq> userLast"
proof -
  have 1: "db_messages (snd (regenerateResponse ([], StreamDone) userLast)) = [userHi, aiEmpty 2 2 1000]"
    by (simp add: example_defs regenerateResponse_def streamResponse_def startAiMessage_def
      onStreamEnd_def chatHistory_def js_slice_def dbLayer_addMessage_def Let_def aiEmpty_def)
  have 2: "ollama_requests (snd (regenerateResponse ([], StreamDone) userLast)) =
     [(''llama3'', [userHi, aiEmpty 2 2 1000])]"
    by (simp add: example_defs regenerateResponse_def streamResponse_def startAiMessage_def
      onStreamEnd_def chatHistory_def js_slice_def dbLayer_addMessage_def Let_def aiEmpty_def)
  have 3: "db_messages userLast = [userHi]" by (simp add: userLast_def)
  from 1 3 have "snd (regenerateResponse ([], StreamDone) userLast) \<noteq> userLast"
    by auto
  with 1 2 3 show ?thesis by (simp add: userLast_def userHi_def)
qed

subsection \<open>Streaming into the assistant message\<close>

lemma addUserMessage_midStream:
  "activeChat s = Some a \<Longrightarrow>
   addUserMessage content (ps, e) s =
     onStreamEnd (chat_id a) e (midStream (chat_id a) ps (afterUserMessage a content s))"
  by (simp add: addUserMessage_eq streamResponse_midStream afterUserMessage_def)

lemma consume_append:
  "consume cid (xs @ ys) s = consume cid ys (consume cid xs s)"
  by (induction xs arbitrary: s) simp_all

lemma midStream_split:
  "midStream cid ps s = consume cid (drop n ps) (midStream cid (take n ps) s)"
  by (metis append_take_drop_id consume_append midStream_def)

lemma afterUserMessage_store:
  assumes "activeChat s = Some a" and "store_ok s"
  shows "db_messages (midStream (chat_id a) ps (afterUserMessage a content s)) =
           db_messages s @
           [userMessage (db_messages_key s) (chat_id a) content (now s),
            withText (concat (map part_content ps))
              (aiEmpty (Suc (db_messages_key s)) (chat_id a) (now s))]"
    and "ongoingAiMessages (midStream (chat_id a) ps (afterUserMessage a content s)) (chat_id a) =
           Some (withText (concat (map part_content ps))
              (aiEmpty (Suc (db_messages_key s)) (chat_id a) (now s)))"
    and "last (messages (midStream (chat_id a) ps (afterUserMessage a content s))) =
           withText (concat (map part_content ps))
              (aiEmpty (Suc (db_messages_key s)) (chat_id a) (now s))"
proof -
  let ?s2 = "afterUserMessage a content s"
  have a2: "activeChat ?s2 = Some a" using assms(1) by (simp add: afterUserMessage_def)
  have "\<forall>m \<in> set (db_messages s). msg_id m < db_messages_key s"
    using assms(2) by (rule store_ok_fresh_key)
  then have f2: "\<forall>m \<in> set (db_messages ?s2). msg_id m < db_messages_key ?s2"
    by (auto simp: afterUserMessage_def userMessage_def less_Suc_eq)
  note ms = midStream_store [OF a2 refl f2, of ps]
  show d: "db_messages (midStream (chat_id a) ps ?s2) =
           db_messages s @
           [userMessage (db_messages_key s) (chat_id a) content (now s),
            withText (concat (map part_content ps))
              (aiEmpty (Suc (db_messages_key s)) (chat_id a) (now s))]"
    using ms(1) by (simp add: afterUserMessage_def)
  show "ongoingAiMessages (midStream (chat_id a) ps ?s2) (chat_id a) =
           Some (withText (concat (map part_content ps))
              (aiEmpty (Suc (db_messages_key s)) (chat_id a) (now s)))"
    using ms(2) by (simp add: afterUserMessage_def)
  show "last (messages (midStream (chat_id a) ps ?s2)) =
           withText (concat (map part_content ps))
              (aiEmpty (Suc (db_messages_key s)) (chat_id a) (now s))"
  proof (cases "ps = []")
    case True
    then show ?thesis using ms(3) by (simp add: afterUserMessage_def withText_def aiEmpty_def)
  next
    case False
    then show ?thesis
      using ms(3) by (simp add: d withText_def aiEmpty_def)
  qed
qed

text \<open>
  Claim C8. With an active chat, for every finite list of streamed parts
  \<^verbatim>\<open>addUserMessage\<close> completes, the stored assistant message and the one in memory hold the
  concatenation of the part texts in arrival order, and the in-flight entry is cleared.
  After each prefix of the stream the stored content is the concatenation of that
  prefix and the entry is still registered, so completion is handled once, after the
  last part.
\<close>

theorem stream_concatenates_parts:
  assumes "activeChat s = Some a" and "store_ok s"
  shows "fst (addUserMessage content (ps, StreamDone) s) = Completed \<and>
         db_messages (snd (addUserMessage content (ps, StreamDone) s)) =
           db_messages s @
           [userMessage (db_messages_key s) (chat_id a) content (now s),
            withText (concat (map part_content ps))
              (aiEmpty (Suc (db_messages_key s)) (chat_id a) (now s))] \<and>
         last (messages (snd (addUserMessage content (ps, StreamDone) s))) =
           withText (concat (map part_content ps))
             (aiEmpty (Suc (db_messages_key s)) (chat_id a) (now s)) \<and>
         ongoingAiMessages (snd (addUserMessage content (ps, StreamDone) s)) (chat_id a) = None \<and>
         (\<forall>n \<le> length ps.
            midStream (chat_id a) ps (afterUserMessage a content s) =
              consume (chat_id a) (drop n ps)
                (midStream (chat_id a) (take n ps) (afterUserMessage a content s)) \<and>
            db_messages (midStream (chat_id a) (take n ps) (afterUserMessage a content s)) =
              db_messages s @
              [userMessage (db_messages_key s) (chat_id a) content (now s),
               withText (concat (map part_content (take n ps)))
                 (aiEmpty (Suc (db_messages_key s)) (chat_id a) (now s))] \<and>
            ongoingAiMessages (midStream (chat_id a) (take n ps) (afterUserMessage a content s))
              (chat_id a) =
              Some (withText (concat (map part_content (take n ps)))
                 (aiEmpty (Suc (db_messages_key s)) (chat_id a) (now s))))"
proof -
  note st = afterUserMessage_store [OF assms]
  have e: "addUserMessage content (ps, StreamDone) s =
      onStreamEnd (chat_id a) StreamDone (midStream (chat_id a) ps (afterUserMessage a content s))"
    using assms(1) by (rule addUserMessage_midStream)
  have 1: "fst (addUserMessage content (ps, StreamDone) s) = Completed"
    by (simp add: e onStreamEnd_def)
  have 2: "db_messages (snd (addUserMessage content (ps, StreamDone) s)) =
           db_messages s @
           [userMessage (db_messages_key s) (chat_id a) content (now s),
            withText (concat (map part_content ps))
              (aiEmpty (Suc (db_messages_key s)) (chat_id a) (now s))]"
    by (simp add: e onStreamEnd_frame st(1))
  have 3: "last (messages (snd (addUserMessage content (ps, StreamDone) s))) =
           withText (concat (map part_content ps))
             (aiEmpty (Suc (db_messages_key s)) (chat_id a) (now s))"
    by (simp add: e onStreamEnd_frame st(3))
  have 4: "ongoingAiMessages (snd (addUserMessage content (ps, StreamDone) s)) (chat_id a) = None"
    by (simp add: e onStreamEnd_def)
  have 5: "midStream (chat_id a) ps (afterUserMessage a content s) =
              consume (chat_id a) (drop n ps)
                (midStream (chat_id a) (take n ps) (afterUserMessage a content s))" for n
    by (rule midStream_split)
  have 6: "db_messages (midStream (chat_id a) (take n ps) (afterUserMessage a content s)) =
              db_messages s @
              [userMessage (db_messages_key s) (chat_id a) content (now s),
               withText (concat (map part_content (take n ps)))
                 (aiEmpty (Suc (db_messages_key s)) (chat_id a) (now s))]" for n
    by (rule afterUserMessage_store(1) [OF assms])
  have 7: "ongoingAiMessages (midStream (chat_id a) (take n ps) (afterUserMessage a content s))
              (chat_id a) =
              Some (withText (concat (map part_content (take n ps)))
                 (aiEmpty (Suc (db_messages_key s)) (chat_id a) (now s)))" for n
    by (rule afterUserMessage_store(2) [OF assms])
  show ?thesis
    using 1 2 3 4 5 6 7 by blast
qed

lemma store_ok_freshChat: "store_ok freshChat"
  by (simp add: freshChat_def store_ok_def chatA_def)

theorem stream_concatenates_parts_witness:
  "activeChat freshChat = Some chatA \<and> store_ok freshChat \<and>
   fst (addUserMessage ''hi'' (helloParts, StreamDone) freshChat) = Completed \<and>
   db_messages (snd (addUserMessage ''hi'' (helloParts, StreamDone) freshChat))
     = [userMessage 1 1 ''hi'' 1000, withText ''Hello'' (aiEmpty 2 1 1000)] \<and>
   last (messages (snd (addUserMessage ''hi'' (helloParts, StreamDone) freshChat)))
     = withText ''Hello'' (aiEmpty 2 1 1000) \<and>
   (1::nat) \<le> length helloParts \<and>
   db_messages (midStream 1 (take 1 helloParts) (afterUserMessage chatA ''hi'' freshChat))
     = [userMessage 1 1 ''hi'' 1000, withText ''Hel'' (aiEmpty 2 1 1000)]"
proof -
  have a: "activeChat freshChat = Some chatA" by (simp add: freshChat_def)
  note t = stream_concatenates_parts [OF a store_ok_freshChat, of "''hi''" helloParts]
  have v: "db_messages freshChat = []" "db_messages_key freshChat = 1" "now freshChat = 1000"
    "chat_id chatA = 1"
    by (simp_all add: freshChat_def chatA_def)
  have c: "concat (map part_content helloParts) = ''Hello''"
    "concat (map part_content (take 1 helloParts)) = ''Hel''" "(1::nat) \<le> length helloParts"
    by (simp_all add: helloParts_def)
  from t have 1: "fst (addUserMessage ''hi'' (helloParts, StreamDone) freshChat) = Completed"
    by blast
  from t have 2: "db_messages (snd (addUserMessage ''hi'' (helloParts, StreamDone) freshChat))
     = [userMessage 1 1 ''hi'' 1000, withText ''Hello'' (aiEmpty 2 1 1000)]"
    unfolding v c by (simp add: numeral_2_eq_2)
  from t have 3: "last (messages (snd (addUserMessage ''hi'' (helloParts, StreamDone) freshChat)))
     = withText ''Hello'' (aiEmpty 2 1 1000)"
    unfolding v c by (simp add: numeral_2_eq_2)
  from t c(3) have "db_messages (midStream (chat_id chatA) (take 1 helloParts)
        (afterUserMessage chatA ''hi'' freshChat)) =
      db_messages freshChat @
      [userMessage (db_messages_key freshChat) (chat_id chatA) ''hi'' (now freshChat),
       withText (concat (map part_content (take 1 helloParts)))
         (aiEmpty (Suc (db_messages_key freshChat)) (chat_id chatA) (now freshChat))]"
    by blast
  then have 4: "db_messages (midStream 1 (take 1 helloParts) (afterUserMessage chatA ''hi'' freshChat))
     = [userMessage 1 1 ''hi'' 1000, withText ''Hel'' (aiEmpty 2 1 1000)]"
    unfolding v c by (simp add: numeral_2_eq_2)
  show ?thesis
    using a store_ok_freshChat 1 2 3 4 c(3) by blast
qed

subsection \<open>Abort\<close>

lemma consume_untracked:
  "ongoingAiMessages s cid = None \<Longrightarrow> consume cid ps s = s"
  by (induction ps) (simp_all add: onPart_def)

text \<open>
  Claim C5. With an active chat, when the stream of \<^verbatim>\<open>addUserMessage\<close> is aborted after the
  parts \<open>ps\<close> have been consumed, the call returns through the \<^verbatim>\<open>AbortError\<close> branch
  (nothing is thrown or logged), no in-flight entry is left, and the assistant message,
  in the store and in memory, holds exactly the concatenation of the texts of \<open>ps\<close>; the
  user message and the assistant message both stay stored. Parts that the iterator
  would still deliver after \<^verbatim>\<open>abort()\<close> change nothing.
\<close>

theorem abort_keeps_received_text:
  assumes "activeChat s = Some a" and "store_ok s"
  shows "fst (addUserMessage content (ps, AbortError) s) = Aborted \<and>
         ongoingAiMessages (snd (addUserMessage content (ps, AbortError) s)) = Map.empty \<and>
         db_messages (snd (addUserMessage content (ps, AbortError) s)) =
           db_messages s @
           [userMessage (db_messages_key s) (chat_id a) content (now s),
            withText (concat (map part_content ps))
              (aiEmpty (Suc (db_messages_key s)) (chat_id a) (now s))] \<and>
         last (messages (snd (addUserMessage content (ps, AbortError) s))) =
           withText (concat (map part_content ps))
             (aiEmpty (Suc (db_messages_key s)) (chat_id a) (now s)) \<and>
         consume (chat_id a) late (abort (midStream (chat_id a) ps (afterUserMessage a content s)))
           = abort (midStream (chat_id a) ps (afterUserMessage a content s))"
proof -
  note st = afterUserMessage_store [OF assms]
  have 5: "consume (chat_id a) late (abort (midStream (chat_id a) ps (afterUserMessage a content s)))
           = abort (midStream (chat_id a) ps (afterUserMessage a content s))"
    by (rule consume_untracked) (simp add: abort_def)
  have e: "addUserMessage content (ps, AbortError) s =
      onStreamEnd (chat_id a) AbortError (midStream (chat_id a) ps (afterUserMessage a content s))"
    using assms(1) by (rule addUserMessage_midStream)
  have 1: "fst (addUserMessage content (ps, AbortError) s) = Aborted"
    by (simp add: e onStreamEnd_def Let_def)
  have 2: "ongoingAiMessages (snd (addUserMessage content (ps, AbortError) s)) = Map.empty"
    by (simp add: e onStreamEnd_def abort_def Let_def)
  have 3: "db_messages (snd (addUserMessage content (ps, AbortError) s)) =
           db_messages s @
           [userMessage (db_messages_key s) (chat_id a) content (now s),
            withText (concat (map part_content ps))
              (aiEmpty (Suc (db_messages_key s)) (chat_id a) (now s))]"
    by (simp add: e onStreamEnd_frame st(1))
  have 4: "last (messages (snd (addUserMessage content (ps, AbortError) s))) =
           withText (concat (map part_content ps))
             (aiEmpty (Suc (db_messages_key s)) (chat_id a) (now s))"
    by (simp add: e onStreamEnd_frame st(3))
  show ?thesis using 1 2 3 4 5 by blast
qed

theorem abort_keeps_received_text_witness:
  "activeChat freshChat = Some chatA \<and> store_ok freshChat \<and>
   fst (addUserMessage ''hi'' ([\<lparr>part_content = ''Hel'', part_done = False\<rparr>], AbortError) freshChat)
     = Aborted \<and>
   db_messages
     (snd (addUserMessage ''hi'' ([\<lparr>part_content = ''Hel'', part_done = False\<rparr>], AbortError) freshChat))
     = [userMessage 1 1 ''hi'' 1000, withText ''Hel'' (aiEmpty 2 1 1000)] \<and>
   last (messages
     (snd (addUserMessage ''hi'' ([\<lparr>part_content = ''Hel'', part_done = False\<rparr>], AbortError) freshChat)))
     = withText ''Hel'' (aiEmpty 2 1 1000)"
proof -
  have a: "activeChat freshChat = Some chatA" by (simp add: freshChat_def)
  show ?thesis
    using a store_ok_freshChat
      abort_keeps_received_text [OF a store_ok_freshChat, of "''hi''"
        "[\<lparr>part_content = ''Hel'', part_done = False\<rparr>]"]
    by (simp add: freshChat_def chatA_def numeral_2_eq_2)
qed

subsection \<open>Messages persisted by an exchange\<close>

text \<open>
  Claim C6. Without an active chat \<^verbatim>\<open>addUserMessage\<close> returns with the state unchanged, so
  nothing is persisted. With an active chat it appends exactly two messages to the
  stored ones, both for the active chat: the user message with the given content, then
  the assistant message, which is created with empty content (and stays empty when the
  stream delivers no part) and ends with the streamed text.
\<close>

theorem addUserMessage_persists_two_messages:
  "(activeChat s = None \<longrightarrow> addUserMessage content r s = (NoActiveChat, s)) \<and>
   (\<forall>a. activeChat s = Some a \<and> store_ok s \<longrightarrow>
      db_messages (snd (addUserMessage content r s)) =
        db_messages s @
        [userMessage (db_messages_key s) (chat_id a) content (now s),
         withText (concat (map part_content (fst r)))
           (aiEmpty (Suc (db_messages_key s)) (chat_id a) (now s))] \<and>
      db_messages (snd (addUserMessage content ([], snd r) s)) =
        db_messages s @
        [userMessage (db_messages_key s) (chat_id a) content (now s),
         aiEmpty (Suc (db_messages_key s)) (chat_id a) (now s)])"
proof (intro conjI allI impI)
  assume "activeChat s = None"
  then show "addUserMessage content r s = (NoActiveChat, s)"
    by (simp add: addUserMessage_def)
next
  fix a
  assume h: "activeChat s = Some a \<and> store_ok s"
  then have a: "activeChat s = Some a" and o: "store_ok s" by simp_all
  show "db_messages (snd (addUserMessage content r s)) =
        db_messages s @
        [userMessage (db_messages_key s) (chat_id a) content (now s),
         withText (concat (map part_content (fst r)))
           (aiEmpty (Suc (db_messages_key s)) (chat_id a) (now s))]"
    using afterUserMessage_store(1) [OF a o, of "fst r" content]
      addUserMessage_midStream [OF a, of content "fst r" "snd r"]
    by (simp add: onStreamEnd_frame)
  show "db_messages (snd (addUserMessage content ([], snd r) s)) =
        db_messages s @
        [userMessage (db_messages_key s) (chat_id a) content (now s),
         aiEmpty (Suc (db_messages_key s)) (chat_id a) (now s)]"
    using afterUserMessage_store(1) [OF a o, of "[]" content]
      addUserMessage_midStream [OF a, of content "[]" "snd r"]
    by (simp add: onStreamEnd_frame withText_def aiEmpty_def)
qed

theorem addUserMessage_persists_two_messages_witness:
  "activeChat freshChat = Some chatA \<and> store_ok freshChat \<and>
   db_messages (snd (addUserMessage ''hi'' ([\<lparr>part_content = ''Hel'', part_done = False\<rparr>], StreamDone)
     freshChat))
     = [userMessage 1 1 ''hi'' 1000, withText ''Hel'' (aiEmpty 2 1 1000)] \<and>
   activeChat (firstRun ''llama3'' None 0) = None \<and>
   addUserMessage ''hi'' ([], StreamDone) (firstRun ''llama3'' None 0)
     = (NoActiveChat, firstRun ''llama3'' None 0)"
proof -
  have a: "activeChat freshChat = Some chatA" by (simp add: freshChat_def)
  have n: "activeChat (firstRun ''llama3'' None 0) = None" by (simp add: firstRun_def)
  show ?thesis
    using a n store_ok_freshChat
      addUserMessage_persists_two_messages [of freshChat "''hi''"
        "([\<lparr>part_content = ''Hel'', part_done = False\<rparr>], StreamDone)"]
      addUserMessage_persists_two_messages [of "firstRun ''llama3'' None 0" "''hi''"
        "([], StreamDone)"]
    by (simp add: freshChat_def chatA_def numeral_2_eq_2)
qed

subsection \<open>Renaming\<close>

text \<open>
  Claim C9, as amended. With an active chat, \<^verbatim>\<open>renameChat\<close> sets the name of the active chat
  object and of the stored chat with its key and changes nothing else of them: keys,
  models and creation times of the stored chats, the stored messages, the in-memory
  messages and every other part of the state are unchanged. The in-memory chat list is
  not edited but replaced by the stored chats: in a state that satisfies the invariant
  its entries keep their keys, order and creation times, and their names and models
  become the stored ones.
\<close>

theorem renameChat_renames_and_reloads_list:
  assumes "activeChat s = Some a"
  shows "renameChat newName s =
           s\<lparr>activeChat := Some (a\<lparr>chat_name := newName\<rparr>),
             db_chats := map (\<lambda>c. if chat_id c = chat_id a then c\<lparr>chat_name := newName\<rparr> else c)
                           (db_chats s),
             chats := map (\<lambda>c. if chat_id c = chat_id a then c\<lparr>chat_name := newName\<rparr> else c)
                           (db_chats s),
             activeShared := False\<rparr> \<and>
         map chat_id (db_chats (renameChat newName s)) = map chat_id (db_chats s) \<and>
         map chat_model (db_chats (renameChat newName s)) = map chat_model (db_chats s) \<and>
         map chat_createdAt (db_chats (renameChat newName s)) = map chat_createdAt (db_chats s) \<and>
         db_messages (renameChat newName s) = db_messages s \<and>
         messages (renameChat newName s) = messages s \<and>
         activeChat (renameChat newName s) = Some (a\<lparr>chat_name := newName\<rparr>) \<and>
         chats (renameChat newName s) = db_chats (renameChat newName s) \<and>
         (inv s \<longrightarrow> map chat_key (chats (renameChat newName s)) = map chat_key (chats s))"
proof -
  have m: "map f (map (\<lambda>c. if chat_id c = k then c\<lparr>chat_name := newName\<rparr> else c) xs) = map f xs"
    if "\<And>c. f (c\<lparr>chat_name := newName\<rparr>) = f c" for f :: "chat \<Rightarrow> 'b" and k xs
    using that by (induction xs) simp_all
  have k: "map chat_key (chats (renameChat newName s)) = map chat_key (chats s)" if "inv s"
  proof -
    have "map chat_key (chats s) = map chat_key (db_chats s)"
      using that by (simp add: inv_def memory_ok_def)
    then show ?thesis using assms by (simp add: renameChat_eq)
  qed
  have "renameChat newName s =
           s\<lparr>activeChat := Some (a\<lparr>chat_name := newName\<rparr>),
             db_chats := map (\<lambda>c. if chat_id c = chat_id a then c\<lparr>chat_name := newName\<rparr> else c)
                           (db_chats s),
             chats := map (\<lambda>c. if chat_id c = chat_id a then c\<lparr>chat_name := newName\<rparr> else c)
                           (db_chats s),
             activeShared := False\<rparr> \<and>
         map chat_id (db_chats (renameChat newName s)) = map chat_id (db_chats s) \<and>
         map chat_model (db_chats (renameChat newName s)) = map chat_model (db_chats s) \<and>
         map chat_createdAt (db_chats (renameChat newName s)) = map chat_createdAt (db_chats s) \<and>
         db_messages (renameChat newName s) = db_messages s \<and>
         messages (renameChat newName s) = messages s \<and>
         activeChat (renameChat newName s) = Some (a\<lparr>chat_name := newName\<rparr>) \<and>
         chats (renameChat newName s) = db_chats (renameChat newName s)"
    using assms by (simp add: renameChat_eq m)
  with k show ?thesis by blast
qed

lemma inv_sMistral: "inv sMistral"
  unfolding sMistral_run
  by (rule reachable_inv) (rule reachable_run, rule reachable.reach_first)

theorem renameChat_renames_and_reloads_list_witness:
  "activeChat sMistral = Some (chatA\<lparr>chat_model := ''mistral''\<rparr>) \<and> inv sMistral \<and>
   db_chats (renameChat ''Plans'' sMistral) =
     [chatA\<lparr>chat_name := ''Plans'', chat_model := ''mistral''\<rparr>, chatB] \<and>
   chats (renameChat ''Plans'' sMistral) =
     [chatA\<lparr>chat_name := ''Plans'', chat_model := ''mistral''\<rparr>, chatB] \<and>
   activeChat (renameChat ''Plans'' sMistral) =
     Some (chatA\<lparr>chat_name := ''Plans'', chat_model := ''mistral''\<rparr>) \<and>
   map chat_key (chats (renameChat ''Plans'' sMistral)) = [(1, 1000), (2, 1000)]"
proof -
  have a: "activeChat sMistral = Some (chatA\<lparr>chat_model := ''mistral''\<rparr>)"
    by (simp add: sMistral_def)
  note t = renameChat_renames_and_reloads_list [OF a, of "''Plans''"]
  have c: "map chat_key (chats sMistral) = [(1, 1000), (2, 1000)]"
    by (simp add: sMistral_def chatA_def chatB_def chat_key_def)
  from t inv_sMistral have 1: "map chat_key (chats (renameChat ''Plans'' sMistral)) = [(1, 1000), (2, 1000)]"
    unfolding c [symmetric] by blast
  from t have "renameChat ''Plans'' sMistral =
      sMistral\<lparr>activeChat := Some (chatA\<lparr>chat_model := ''mistral'', chat_name := ''Plans''\<rparr>),
        db_chats := map (\<lambda>c. if chat_id c = chat_id (chatA\<lparr>chat_model := ''mistral''\<rparr>)
                               then c\<lparr>chat_name := ''Plans''\<rparr> else c) (db_chats sMistral),
        chats := map (\<lambda>c. if chat_id c = chat_id (chatA\<lparr>chat_model := ''mistral''\<rparr>)
                            then c\<lparr>chat_name := ''Plans''\<rparr> else c) (db_chats sMistral),
        activeShared := False\<rparr>"
    by blast
  then have 2: "db_chats (renameChat ''Plans'' sMistral) =
     [chatA\<lparr>chat_name := ''Plans'', chat_model := ''mistral''\<rparr>, chatB]"
    "chats (renameChat ''Plans'' sMistral) =
     [chatA\<lparr>chat_name := ''Plans'', chat_model := ''mistral''\<rparr>, chatB]"
    "activeChat (renameChat ''Plans'' sMistral) =
     Some (chatA\<lparr>chat_name := ''Plans'', chat_model := ''mistral''\<rparr>)"
    by (simp_all add: sMistral_def chatA_def chatB_def)
  from a inv_sMistral 1 2 show ?thesis by blast
qed

text \<open>
  The claim as stated fails for the in-memory list. In \<open>sMistral\<close> the first chat was
  activated by \<^verbatim>\<open>switchChat\<close>, so the active object is a copy read from the store, and
  \<^verbatim>\<open>switchModel('mistral')\<close> then wrote the model to the store and to that copy only; the
  list still shows \<^verbatim>\<open>llama3\<close>. \<^verbatim>\<open>renameChat\<close> reloads the list, and the listed model of the
  renamed chat changes with it.
\<close>

theorem renameChat_list_model_counterexample:
  "activeChat sMistral = Some (chatA\<lparr>chat_model := ''mistral''\<rparr>) \<and>
   map chat_model (chats sMistral) = [''llama3'', ''llama3''] \<and>
   map chat_model (chats (renameChat ''Plans'' sMistral)) = [''mistral'', ''llama3''] \<and>
   map chat_model (chats (renameChat ''Plans'' sMistral)) \<noteq> map chat_model (chats sMistral)"
  by (simp add: sMistral_def chatA_def chatB_def renameChat_def dbLayer_updateChat_def
      dbLayer_getAllChats_def Let_def)

subsection \<open>The active chat is listed\<close>

lemma inv_activeListed: "inv s \<Longrightarrow> activeListed s"
proof (cases "activeChat s")
  case None
  then show ?thesis by (simp add: activeListed_def)
next
  case (Some a)
  assume "inv s"
  then have "chat_key a \<in> chat_key ` set (chats s)"
    using Some by (simp add: inv_def memory_ok_def)
  then obtain c where "c \<in> set (chats s)" "chat_key a = chat_key c" by blast
  then have "chat_id a \<in> chat_id ` set (chats s)" by (auto simp: chat_key_def)
  with Some show ?thesis by (simp add: activeListed_def)
qed

text \<open>
  Claim C4. A session starts with \<^verbatim>\<open>initialize\<close> (as \<^verbatim>\<open>App.vue\<close> does when mounted, on a first
  run or after a reload) and continues with any engine operations. From every state so
  reached, after every further sequence of operations, in particular of
  \<^verbatim>\<open>startNewChat\<close>, \<^verbatim>\<open>switchChat\<close> and \<^verbatim>\<open>deleteChat\<close> calls, the active chat, when there is
  one, has the key of a chat in the in-memory list. (The active object itself is
  in general a copy read from the store, so membership is by key.)
\<close>

theorem active_chat_is_listed:
  "reachable s \<Longrightarrow> activeListed (run as s)"
proof -
  assume "reachable s"
  then have "reachable (run as s)" by (rule reachable_run)
  then have "inv (run as s)" by (rule reachable_inv)
  then show ?thesis by (rule inv_activeListed)
qed

theorem active_chat_is_listed_witness:
  "reachable (initialize None (firstRun ''llama3'' (Some 10) 1000)) \<and>
   activeListed
     (run [StartNewChat ''B'' None, SwitchChat 1, DeleteChat 1 None, DeleteChat 2 None]
        (initialize None (firstRun ''llama3'' (Some 10) 1000)))"
proof -
  have r: "reachable (initialize None (firstRun ''llama3'' (Some 10) 1000))"
    by (rule reachable.reach_first)
  from r active_chat_is_listed [OF r] show ?thesis by blast
qed

subsection \<open>Deleting a chat\<close>

lemma sortedChats_head_latest:
  assumes "sortedChats s = c # cs"
  shows "\<forall>d \<in> set (chats s). chat_createdAt d \<le> chat_createdAt c"
proof -
  have "sorted (map (\<lambda>c. - chat_createdAt c) (sortedChats s))"
    unfolding sortedChats_def by (rule sorted_sort_key)
  then have "\<forall>d \<in> set cs. - chat_createdAt c \<le> - chat_createdAt d"
    by (simp add: assms)
  moreover have "set (chats s) = insert c (set cs)"
    using sortedChats_set [of s] by (simp add: assms)
  ultimately show ?thesis by auto
qed

lemma switchChat_fields:
  assumes "dbLayer_getChat cid s = Some d"
  shows "activeChat (switchChat cid s) = Some d"
    and "chats (switchChat cid s) = chats s"
    and "map chat_id (db_chats (switchChat cid s)) = map chat_id (db_chats s)"
    and "db_messages (switchChat cid s) = db_messages s"
    and "messages (switchChat cid s) = dbLayer_getMessages cid s"
  using assms
  by (simp_all add: switchChat_def switchModel_def dbLayer_updateChat_def Let_def
      dbLayer_getMessages_def)

lemma startNewChat_fields:
  "activeChat (startNewChat name sysmsg s) = Some (newChat name s)"
  "chats (startNewChat name sysmsg s) = chats s @ [newChat name s]"
  "db_chats (startNewChat name sysmsg s) = db_chats s @ [newChat name s]"
  by (simp_all add: startNewChat_def dbLayer_addChat_def Let_def newChat_def addSystemMessage_eq)

lemma distinct_map_eq:
  "distinct (map f xs) \<Longrightarrow> x \<in> set xs \<Longrightarrow> y \<in> set xs \<Longrightarrow> f x = f y \<Longrightarrow> x = y"
  by (meson distinct_map inj_onD)

lemma inv_no_messages_of:
  assumes "inv s" and "k \<notin> chat_id ` set (db_chats s)"
  shows "k \<notin> chat_id ` set (chats s)"
    and "k \<notin> msg_chatId ` set (db_messages s)"
    and "k \<notin> msg_chatId ` set (messages s)"
proof -
  have "map chat_key (chats s) = map chat_key (db_chats s)"
    using assms(1) by (simp add: inv_def memory_ok_def)
  then have ids: "chat_id ` set (chats s) = chat_id ` set (db_chats s)"
    by (rule keys_ids_image)
  with assms(2) show "k \<notin> chat_id ` set (chats s)" by simp
  have "\<forall>m \<in> set (db_messages s). msg_chatId m \<in> chat_id ` set (db_chats s)"
    using assms(1) by (simp add: inv_def store_ok_def)
  with assms(2) show "k \<notin> msg_chatId ` set (db_messages s)" by auto
  have "msg_chatId m \<noteq> k" if "m \<in> set (messages s)" for m
  proof -
    from assms(1) that obtain a where a: "activeChat s = Some a" "msg_chatId m = chat_id a"
      unfolding inv_def memory_ok_def by blast
    from assms(1) a(1) have "chat_id a \<in> chat_id ` set (db_chats s)"
      by (simp add: inv_def active_in_store)
    with assms(2) a(2) show ?thesis by auto
  qed
  then show "k \<notin> msg_chatId ` set (messages s)" by auto
qed

lemma deleteChat_removes_chat:
  assumes "inv s"
  shows "k \<notin> chat_id ` set (db_chats (deleteChat k sysmsg s))"
proof (cases "case activeChat s of None \<Rightarrow> False | Some a \<Rightarrow> chat_id a = k")
  case False
  then show ?thesis by (auto simp: deleteChat_eq afterDelete_def)
next
  case True
  then obtain a where a: "activeChat s = Some a" "chat_id a = k"
    by (cases "activeChat s") simp_all
  have f: "k \<notin> chat_id ` set (db_chats (afterDelete k s))"
    by (auto simp: afterDelete_def)
  have l: "lists_ok (afterDelete k s)"
    using assms by (simp add: inv_lists_ok lists_ok_afterDelete)
  show ?thesis
  proof (cases "sortedChats (afterDelete k s)")
    case Nil
    have "k \<in> chat_id ` set (db_chats s)"
      using assms a by (auto simp: inv_def dest: active_in_store)
    then have "k < db_chats_key s"
      using assms by (auto simp: inv_def store_ok_def)
    then have "k \<noteq> chat_id (newChat ''New chat'' (afterDelete k s))"
      by (simp add: newChat_def afterDelete_def)
    with f True Nil show ?thesis
      by (simp add: deleteChat_eq startNewChat_fields)
  next
    case (Cons c cs)
    from Cons have "c \<in> set (chats (afterDelete k s))" by (rule sortedChats_Cons)
    then have "chat_id c \<in> chat_id ` set (chats (afterDelete k s))" by simp
    moreover have "map chat_key (chats (afterDelete k s)) = map chat_key (db_chats (afterDelete k s))"
      using l by (simp add: lists_ok_def)
    then have "chat_id ` set (chats (afterDelete k s)) = chat_id ` set (db_chats (afterDelete k s))"
      by (rule keys_ids_image)
    ultimately have "dbLayer_getChat (chat_id c) (afterDelete k s) \<noteq> None"
      by (simp add: getChat_None)
    then obtain d where d: "dbLayer_getChat (chat_id c) (afterDelete k s) = Some d" by blast
    have "set (map chat_id (db_chats (switchChat (chat_id c) (afterDelete k s))))
        = set (map chat_id (db_chats (afterDelete k s)))"
      by (simp only: switchChat_fields(3) [OF d])
    with f True Cons show ?thesis
      by (simp add: deleteChat_eq)
  qed
qed

lemma deleteChat_switches:
  assumes "inv s" and "activeChat s = Some a" and "chat_id a = k"
    and "sortedChats (afterDelete k s) = c # cs"
  shows "\<exists>a'. activeChat (deleteChat k sysmsg s) = Some a' \<and> chat_key a' = chat_key c \<and>
           (\<forall>d \<in> set (chats (deleteChat k sysmsg s)). chat_createdAt d \<le> chat_createdAt a')"
proof -
  let ?s2 = "afterDelete k s"
  have l: "lists_ok ?s2"
    using assms(1) by (simp add: inv_lists_ok lists_ok_afterDelete)
  have keys: "map chat_key (chats ?s2) = map chat_key (db_chats ?s2)"
    using l by (simp add: lists_ok_def)
  have dist: "distinct (map chat_id (db_chats ?s2))"
    using l by (simp add: lists_ok_def store_ok_def)
  from assms(4) have c: "c \<in> set (chats ?s2)" by (rule sortedChats_Cons)
  then have "chat_key c \<in> chat_key ` set (chats ?s2)" by simp
  also have "\<dots> = chat_key ` set (db_chats ?s2)" using keys by (rule keys_image)
  finally obtain d' where d': "d' \<in> set (db_chats ?s2)" "chat_key d' = chat_key c" by auto
  then have "chat_id c \<in> chat_id ` set (db_chats ?s2)"
    by (metis chat_key_id image_eqI)
  then have "dbLayer_getChat (chat_id c) ?s2 \<noteq> None" by (simp add: getChat_None)
  then obtain d where d: "dbLayer_getChat (chat_id c) ?s2 = Some d" by blast
  then have "d \<in> set (db_chats ?s2)" "chat_id d = chat_id c" by (simp_all add: getChat_Some)
  with d' dist have "d = d'"
    by (metis chat_key_id distinct_map_eq)
  with d' have kd: "chat_key d = chat_key c" by simp
  have e: "deleteChat k sysmsg s = switchChat (chat_id c) ?s2"
    using assms(2,3,4) by (simp add: deleteChat_eq)
  have late: "\<forall>x \<in> set (chats ?s2). chat_createdAt x \<le> chat_createdAt c"
    using assms(4) by (rule sortedChats_head_latest)
  have "chat_createdAt d = chat_createdAt c" using kd by (simp add: chat_key_def)
  with late have "\<forall>x \<in> set (chats (switchChat (chat_id c) ?s2)). chat_createdAt x \<le> chat_createdAt d"
    by (simp add: switchChat_fields(2) [OF d])
  with kd show ?thesis
    unfolding e by (simp add: switchChat_fields(1) [OF d])
qed

text \<open>
  Claim C7. In a state that satisfies the engine's invariant (every reachable state
  does), after \<^verbatim>\<open>deleteChat(chatId)\<close> no stored or listed chat has that key, no stored
  and no in-memory message has it as \<^verbatim>\<open>chatId\<close>, and every stored message references a
  stored chat. If the deleted chat was the active one, the first of the remaining
  chats in descending creation order becomes active, and none of the remaining chats
  was created later; if none remains, the result is that of \<^verbatim>\<open>startNewChat('New chat')\<close>
  and its chat is active. Otherwise the active chat is unchanged.
\<close>

theorem deleteChat_cascades:
  assumes "inv s"
  shows "chatId \<notin> chat_id ` set (db_chats (deleteChat chatId sysmsg s)) \<and>
         chatId \<notin> chat_id ` set (chats (deleteChat chatId sysmsg s)) \<and>
         chatId \<notin> msg_chatId ` set (db_messages (deleteChat chatId sysmsg s)) \<and>
         chatId \<notin> msg_chatId ` set (messages (deleteChat chatId sysmsg s)) \<and>
         (\<forall>m \<in> set (db_messages (deleteChat chatId sysmsg s)).
            msg_chatId m \<in> chat_id ` set (db_chats (deleteChat chatId sysmsg s))) \<and>
         (case activeChat s of
            None \<Rightarrow> activeChat (deleteChat chatId sysmsg s) = None
          | Some a \<Rightarrow>
              if chat_id a = chatId
              then (case sortedChats (afterDelete chatId s) of
                      [] \<Rightarrow>
                        deleteChat chatId sysmsg s =
                          startNewChat ''New chat'' sysmsg (afterDelete chatId s) \<and>
                        activeChat (deleteChat chatId sysmsg s) =
                          Some (newChat ''New chat'' (afterDelete chatId s)) \<and>
                        chats (deleteChat chatId sysmsg s) =
                          [newChat ''New chat'' (afterDelete chatId s)]
                    | c # cs \<Rightarrow>
                        (\<exists>a'. activeChat (deleteChat chatId sysmsg s) = Some a' \<and>
                           chat_key a' = chat_key c \<and>
                           (\<forall>d \<in> set (chats (deleteChat chatId sysmsg s)).
                              chat_createdAt d \<le> chat_createdAt a')))
              else activeChat (deleteChat chatId sysmsg s) = Some a)"
proof -
  let ?s' = "deleteChat chatId sysmsg s"
  have i: "inv ?s'" using assms by (rule inv_deleteChat)
  have 1: "chatId \<notin> chat_id ` set (db_chats ?s')"
    using assms by (rule deleteChat_removes_chat)
  note rest = inv_no_messages_of [OF i 1]
  have 5: "\<forall>m \<in> set (db_messages ?s'). msg_chatId m \<in> chat_id ` set (db_chats ?s')"
    using i by (simp add: inv_def store_ok_def)
  have 6: "(case activeChat s of
            None \<Rightarrow> activeChat ?s' = None
          | Some a \<Rightarrow>
              if chat_id a = chatId
              then (case sortedChats (afterDelete chatId s) of
                      [] \<Rightarrow>
                        ?s' = startNewChat ''New chat'' sysmsg (afterDelete chatId s) \<and>
                        activeChat ?s' = Some (newChat ''New chat'' (afterDelete chatId s)) \<and>
                        chats ?s' = [newChat ''New chat'' (afterDelete chatId s)]
                    | c # cs \<Rightarrow>
                        (\<exists>a'. activeChat ?s' = Some a' \<and> chat_key a' = chat_key c \<and>
                           (\<forall>d \<in> set (chats ?s'). chat_createdAt d \<le> chat_createdAt a')))
              else activeChat ?s' = Some a)"
  proof (cases "activeChat s")
    case None
    then show ?thesis by (simp add: deleteChat_eq afterDelete_def)
  next
    case (Some a)
    show ?thesis
    proof (cases "chat_id a = chatId")
      case False
      with Some show ?thesis by (simp add: deleteChat_eq afterDelete_def)
    next
      case True
      show ?thesis
      proof (cases "sortedChats (afterDelete chatId s)")
        case Nil
        then have "set (chats (afterDelete chatId s)) = {}"
          using sortedChats_set [of "afterDelete chatId s"] by simp
        then have "chats (afterDelete chatId s) = []" by simp
        with Some True Nil show ?thesis
          by (simp add: deleteChat_eq startNewChat_fields)
      next
        case (Cons c cs)
        with Some True deleteChat_switches [OF assms Some True Cons, of sysmsg]
        show ?thesis by simp
      qed
    qed
  qed
  from 1 rest 5 6 show ?thesis by blast
qed

lemma inv_twoPrompts: "inv twoPrompts"
proof -
  have "reachable (initialize (Some ''Be brief'') (firstRun ''llama3'' (Some 10) 1000))"
    by (rule reachable.reach_first)
  then have "reachable twoPrompts"
    unfolding twoPrompts_run by (rule reachable_run)
  then show ?thesis by (rule reachable_inv)
qed

lemma inv_freshChat: "inv freshChat"
  unfolding freshChat_run by (rule reachable_inv) (rule reachable.reach_first)

theorem deleteChat_cascades_witness:
  "inv twoPrompts \<and>
   1 \<notin> chat_id ` set (db_chats (deleteChat 1 None twoPrompts)) \<and>
   1 \<notin> msg_chatId ` set (db_messages (deleteChat 1 None twoPrompts)) \<and>
   db_chats (deleteChat 1 None twoPrompts) = [chatB] \<and>
   db_messages (deleteChat 1 None twoPrompts) = [sysB] \<and>
   activeChat (deleteChat 1 None twoPrompts) = Some chatB \<and>
   inv freshChat \<and>
   activeChat (deleteChat 1 None freshChat) =
     Some \<lparr>chat_id = 2, chat_name = ''New chat'', chat_model = ''llama3'', chat_createdAt = 1000\<rparr>"
proof -
  note t = deleteChat_cascades [OF inv_twoPrompts, of 1 None]
  note f = deleteChat_cascades [OF inv_freshChat, of 1 None]
  from t have 1: "1 \<notin> chat_id ` set (db_chats (deleteChat 1 None twoPrompts))" by blast
  from t have 2: "1 \<notin> msg_chatId ` set (db_messages (deleteChat 1 None twoPrompts))" by blast
  have e: "deleteChat 1 None twoPrompts =
      twoPrompts\<lparr>db_chats := [chatB], db_messages := [sysB], chats := [chatB],
                 activeChat := Some chatB, messages := [sysB]\<rparr>"
    by (simp add: example_defs op_defs deleteChat_def dbLayer_deleteChat_def
        dbLayer_deleteMessagesOfChat_def)
  have s: "sortedChats (afterDelete (Suc 0) freshChat) = []"
    by (simp add: sortedChats_def afterDelete_def freshChat_def chatA_def)
  have a: "activeChat freshChat = Some chatA" "chat_id chatA = 1"
    by (simp_all add: freshChat_def chatA_def)
  from f have "activeChat (deleteChat 1 None freshChat) =
      Some (newChat ''New chat'' (afterDelete 1 freshChat))"
    by (simp add: a s startNewChat_fields)
  then have 3: "activeChat (deleteChat 1 None freshChat) =
     Some \<lparr>chat_id = 2, chat_name = ''New chat'', chat_model = ''llama3'', chat_createdAt = 1000\<rparr>"
    by (simp add: newChat_def afterDelete_def freshChat_def)
  have 4: "db_chats (deleteChat 1 None twoPrompts) = [chatB]"
    "db_messages (deleteChat 1 None twoPrompts) = [sysB]"
    "activeChat (deleteChat 1 None twoPrompts) = Some chatB"
    unfolding e by simp_all
  from 1 2 3 4 inv_twoPrompts inv_freshChat show ?thesis by blast
qed

subsection \<open>Export and import\<close>

lemma imported_messages_of:
  assumes "\<forall>m \<in> set ms. msg_chatId m < k"
  shows "filter (\<lambda>m. msg_chatId m = k) (ms @ stored k n xs) = stored k n xs"
    and "j < k \<Longrightarrow> filter (\<lambda>m. msg_chatId m = j) (ms @ stored k n xs) = filter (\<lambda>m. msg_chatId m = j) ms"
proof -
  have a: "filter (\<lambda>m. msg_chatId m = k) ms = []"
    using assms by (auto simp: filter_empty_conv)
  have b: "filter (\<lambda>m. msg_chatId m = k) (stored k n xs) = stored k n xs"
    by (auto simp: filter_id_conv dest: stored_chatId)
  show "filter (\<lambda>m. msg_chatId m = k) (ms @ stored k n xs) = stored k n xs"
    by (simp add: a b)
  show "filter (\<lambda>m. msg_chatId m = j) (ms @ stored k n xs) = filter (\<lambda>m. msg_chatId m = j) ms"
    if "j < k"
  proof -
    have "filter (\<lambda>m. msg_chatId m = j) (stored k n xs) = []"
      using that by (auto simp: filter_empty_conv dest: stored_chatId)
    then show ?thesis by simp
  qed
qed

lemma importChats_all:
  assumes "\<forall>b \<in> set bs. \<not> (ce_createdAt b = None \<and> ce_messages b = [])"
    and "\<forall>m \<in> set (db_messages s). msg_chatId m < db_chats_key s"
  shows "fst (importChats bs s) = [] \<and>
         db_chats (snd (importChats bs s)) =
           db_chats s @ map2 importedChat [db_chats_key s ..< db_chats_key s + length bs] bs \<and>
         chats (snd (importChats bs s)) =
           chats s @ map2 importedChat [db_chats_key s ..< db_chats_key s + length bs] bs \<and>
         (\<forall>i < length bs.
            \<exists>n. dbLayer_getMessages (db_chats_key s + i) (snd (importChats bs s)) =
                   stored (db_chats_key s + i) n (ce_messages (bs ! i))) \<and>
         (\<forall>j < db_chats_key s.
            dbLayer_getMessages j (snd (importChats bs s)) = dbLayer_getMessages j s)"
  using assms
proof (induction bs arbitrary: s)
  case Nil
  then show ?case by simp
next
  case (Cons b bs)
  let ?k = "db_chats_key s"
  let ?s1 = "s\<lparr>db_chats := db_chats s @ [importedChat ?k b],
            db_chats_key := Suc ?k,
            chats := chats s @ [importedChat ?k b],
            db_messages := db_messages s @ stored ?k (db_messages_key s) (ce_messages b),
            db_messages_key := db_messages_key s + length (ce_messages b)\<rparr>"
  have nf: "\<not> (ce_createdAt b = None \<and> ce_messages b = [])" using Cons.prems(1) by simp
  have e: "importChats (b # bs) s = importChats bs ?s1"
    by (simp add: importChat_eq [OF nf])
  have p1: "\<forall>b \<in> set bs. \<not> (ce_createdAt b = None \<and> ce_messages b = [])"
    using Cons.prems(1) by simp
  have p2: "\<forall>m \<in> set (db_messages ?s1). msg_chatId m < db_chats_key ?s1"
    using Cons.prems(2) by (auto simp: less_Suc_eq dest: stored_chatId)
  note ih = Cons.IH [OF p1 p2]
  let ?s' = "snd (importChats bs ?s1)"
  have k1: "db_chats_key ?s1 = Suc ?k" by simp
  have 1: "fst (importChats (b # bs) s) = []" using ih unfolding e by blast
  have u: "[?k ..< ?k + length (b # bs)] = ?k # [Suc ?k ..< Suc ?k + length bs]"
    by (simp add: upt_rec)
  have 2: "db_chats (snd (importChats (b # bs) s)) =
           db_chats s @ map2 importedChat [?k ..< ?k + length (b # bs)] (b # bs)"
    using ih unfolding e u by simp
  have 3: "chats (snd (importChats (b # bs) s)) =
           chats s @ map2 importedChat [?k ..< ?k + length (b # bs)] (b # bs)"
    using ih unfolding e u by simp
  have old: "\<forall>j < Suc ?k. dbLayer_getMessages j ?s' = dbLayer_getMessages j ?s1"
    using ih unfolding k1 by blast
  have g0: "dbLayer_getMessages ?k ?s1 = stored ?k (db_messages_key s) (ce_messages b)"
    using imported_messages_of(1) [OF Cons.prems(2)] by (simp add: dbLayer_getMessages_def)
  have 4: "\<exists>n. dbLayer_getMessages (?k + i) (snd (importChats (b # bs) s)) =
                   stored (?k + i) n (ce_messages ((b # bs) ! i))"
    if "i < length (b # bs)" for i
  proof (cases i)
    case 0
    have "dbLayer_getMessages ?k ?s' = dbLayer_getMessages ?k ?s1" using old by simp
    with g0 0 show ?thesis unfolding e by auto
  next
    case (Suc i')
    with that have "i' < length bs" by simp
    with ih have "\<exists>n. dbLayer_getMessages (db_chats_key ?s1 + i') ?s' =
                   stored (db_chats_key ?s1 + i') n (ce_messages (bs ! i'))"
      by blast
    then show ?thesis unfolding e Suc by simp
  qed
  have 5: "dbLayer_getMessages j (snd (importChats (b # bs) s)) = dbLayer_getMessages j s"
    if "j < ?k" for j
  proof -
    have "dbLayer_getMessages j ?s' = dbLayer_getMessages j ?s1" using old that by simp
    also have "\<dots> = dbLayer_getMessages j s"
      using imported_messages_of(2) [OF Cons.prems(2) that]
      by (simp add: dbLayer_getMessages_def)
    finally show ?thesis unfolding e .
  qed
  from 1 2 3 4 5 show ?case by blast
qed

lemma stored_payload: "map msg_payload (stored c k ms) = map msg_payload ms"
  by (induction ms arbitrary: k) (simp_all add: msg_payload_def)

lemma exportChats_all:
  assumes "store_ok s"
  shows "exportChats s = map (bundleOf s) (db_chats s)"
proof -
  have "\<forall>c \<in> set (db_chats s). chat_id c \<noteq> 0"
    using assms by (auto simp: store_ok_def)
  then have "filter (\<lambda>c. chat_id c \<noteq> 0) (db_chats s) = db_chats s"
    by (simp add: filter_id_conv)
  then show ?thesis
    by (simp add: exportChats_def dbLayer_getAllChats_def bundleOf_def [abs_def])
qed

text \<open>
  Claim C3. For every well-formed store, importing the result of \<^verbatim>\<open>exportChats\<close> faults
  for no bundle, keeps every stored chat and message, and adds one new chat per
  exported chat, in the same order, under fresh keys. The \<open>i\<close>-th new chat has the name,
  model and creation time of the \<open>i\<close>-th original, and its stored messages agree with the
  original's in number, order, role, content and creation time (keys, \<^verbatim>\<open>chatId\<close> and
  \<^verbatim>\<open>meta\<close> are not carried over). The state compared is the one reached when every
  asynchronous callback of \<^verbatim>\<open>importChats\<close> has finished.
\<close>

theorem export_import_roundtrip:
  assumes "store_ok s"
  shows "fst (importChats (exportChats s) s) = [] \<and>
         length (exportChats s) = length (db_chats s) \<and>
         length (db_chats (snd (importChats (exportChats s) s))) = 2 * length (db_chats s) \<and>
         take (length (db_chats s)) (db_chats (snd (importChats (exportChats s) s))) = db_chats s \<and>
         (\<forall>i < length (db_chats s).
            chat_id (db_chats (snd (importChats (exportChats s) s)) ! (length (db_chats s) + i))
              = db_chats_key s + i \<and>
            chat_name (db_chats (snd (importChats (exportChats s) s)) ! (length (db_chats s) + i))
              = chat_name (db_chats s ! i) \<and>
            chat_model (db_chats (snd (importChats (exportChats s) s)) ! (length (db_chats s) + i))
              = chat_model (db_chats s ! i) \<and>
            chat_createdAt (db_chats (snd (importChats (exportChats s) s)) ! (length (db_chats s) + i))
              = chat_createdAt (db_chats s ! i) \<and>
            map msg_payload
              (dbLayer_getMessages (db_chats_key s + i) (snd (importChats (exportChats s) s)))
              = map msg_payload (dbLayer_getMessages (chat_id (db_chats s ! i)) s) \<and>
            dbLayer_getMessages (chat_id (db_chats s ! i)) (snd (importChats (exportChats s) s))
              = dbLayer_getMessages (chat_id (db_chats s ! i)) s)"
proof -
  let ?bs = "exportChats s"
  let ?s' = "snd (importChats ?bs s)"
  let ?n = "length (db_chats s)"
  let ?k = "db_chats_key s"
  have bs: "?bs = map (bundleOf s) (db_chats s)" using assms by (rule exportChats_all)
  then have len: "length ?bs = ?n" by simp
  have nf: "\<forall>b \<in> set ?bs. \<not> (ce_createdAt b = None \<and> ce_messages b = [])"
    unfolding bs by (simp add: bundleOf_def)
  have ids: "\<forall>c \<in> set (db_chats s). chat_id c < ?k"
    using assms by (simp add: store_ok_def)
  have "\<forall>m \<in> set (db_messages s). msg_chatId m \<in> chat_id ` set (db_chats s)"
    using assms by (simp add: store_ok_def)
  with ids have fresh: "\<forall>m \<in> set (db_messages s). msg_chatId m < ?k" by auto
  note all = importChats_all [OF nf fresh]
  from all have 1: "fst (importChats ?bs s) = []" by blast
  from all have chats': "db_chats ?s' =
      db_chats s @ map2 importedChat [?k ..< ?k + length ?bs] ?bs" by blast
  have 3: "length (db_chats ?s') = 2 * ?n" unfolding chats' by (simp add: len)
  have 4: "take ?n (db_chats ?s') = db_chats s" unfolding chats' by simp
  have 5: "chat_id (db_chats ?s' ! (?n + i)) = ?k + i \<and>
           chat_name (db_chats ?s' ! (?n + i)) = chat_name (db_chats s ! i) \<and>
           chat_model (db_chats ?s' ! (?n + i)) = chat_model (db_chats s ! i) \<and>
           chat_createdAt (db_chats ?s' ! (?n + i)) = chat_createdAt (db_chats s ! i) \<and>
           map msg_payload (dbLayer_getMessages (?k + i) ?s')
             = map msg_payload (dbLayer_getMessages (chat_id (db_chats s ! i)) s) \<and>
           dbLayer_getMessages (chat_id (db_chats s ! i)) ?s'
             = dbLayer_getMessages (chat_id (db_chats s ! i)) s"
    if i: "i < ?n" for i
  proof -
    have b: "?bs ! i = bundleOf s (db_chats s ! i)" using i by (simp add: bs)
    have "db_chats ?s' ! (?n + i) = map2 importedChat [?k ..< ?k + length ?bs] ?bs ! i"
      unfolding chats' by simp
    also have "\<dots> = importedChat (?k + i) (?bs ! i)"
      using i by (simp add: len)
    finally have c: "db_chats ?s' ! (?n + i) = importedChat (?k + i) (bundleOf s (db_chats s ! i))"
      by (simp only: b)
    from all i len obtain n where
      "dbLayer_getMessages (?k + i) ?s' = stored (?k + i) n (ce_messages (?bs ! i))"
      by auto
    then have m: "map msg_payload (dbLayer_getMessages (?k + i) ?s')
             = map msg_payload (dbLayer_getMessages (chat_id (db_chats s ! i)) s)"
      by (simp add: b stored_payload bundleOf_def)
    have "chat_id (db_chats s ! i) < ?k" using ids i by simp
    with all have o: "dbLayer_getMessages (chat_id (db_chats s ! i)) ?s'
             = dbLayer_getMessages (chat_id (db_chats s ! i)) s"
      by blast
    from m o show ?thesis
      by (simp add: c importedChat_def bundleOf_def)
  qed
  from 1 len 3 4 5 show ?thesis by blast
qed

theorem export_import_roundtrip_witness:
  "store_ok twoPrompts \<and> (0::nat) < length (db_chats twoPrompts) \<and>
   fst (importChats (exportChats twoPrompts) twoPrompts) = [] \<and>
   length (db_chats (snd (importChats (exportChats twoPrompts) twoPrompts))) = 4 \<and>
   chat_id (db_chats (snd (importChats (exportChats twoPrompts) twoPrompts)) ! 2) = 3 \<and>
   chat_name (db_chats (snd (importChats (exportChats twoPrompts) twoPrompts)) ! 2) = ''New chat'' \<and>
   map msg_payload
     (dbLayer_getMessages 3 (snd (importChats (exportChats twoPrompts) twoPrompts)))
     = [(System, ''Be brief'', 1000)]"
proof -
  have o: "store_ok twoPrompts" using inv_twoPrompts by (rule inv_store_ok)
  note t = export_import_roundtrip [OF o]
  have v: "length (db_chats twoPrompts) = 2" "db_chats_key twoPrompts = 3"
    "db_chats twoPrompts ! 0 = chatA"
    by (simp_all add: twoPrompts_def)
  have g: "map msg_payload (dbLayer_getMessages (chat_id chatA) twoPrompts)
      = [(System, ''Be brief'', 1000)]"
    by (simp add: dbLayer_getMessages_def twoPrompts_def chatA_def sysA_def sysB_def msg_payload_def)
  have l: "(0::nat) < length (db_chats twoPrompts)" by (simp add: v)
  from t have 1: "fst (importChats (exportChats twoPrompts) twoPrompts) = []" by blast
  from t have 2: "length (db_chats (snd (importChats (exportChats twoPrompts) twoPrompts))) = 4"
    by (simp add: v)
  from t l have
    "chat_id (db_chats (snd (importChats (exportChats twoPrompts) twoPrompts))
        ! (length (db_chats twoPrompts) + 0)) = db_chats_key twoPrompts + 0 \<and>
     chat_name (db_chats (snd (importChats (exportChats twoPrompts) twoPrompts))
        ! (length (db_chats twoPrompts) + 0)) = chat_name (db_chats twoPrompts ! 0) \<and>
     map msg_payload
       (dbLayer_getMessages (db_chats_key twoPrompts + 0)
          (snd (importChats (exportChats twoPrompts) twoPrompts)))
       = map msg_payload (dbLayer_getMessages (chat_id (db_chats twoPrompts ! 0)) twoPrompts)"
    by blast
  then have 3:
    "chat_id (db_chats (snd (importChats (exportChats twoPrompts) twoPrompts)) ! 2) = 3"
    "chat_name (db_chats (snd (importChats (exportChats twoPrompts) twoPrompts)) ! 2) = ''New chat''"
    "map msg_payload
       (dbLayer_getMessages 3 (snd (importChats (exportChats twoPrompts) twoPrompts)))
       = [(System, ''Be brief'', 1000)]"
    unfolding v g by (simp_all add: chatA_def)
  from o l 1 2 3 show ?thesis by blast
qed

end
